theory Spec2Isabelle
  imports Main
begin

section \<open>Screen, device and trace\<close>

text \<open>
  The bot sees the game through screenshots and acts through clicks. A button asset is
  identified by its name. A frame is what one screenshot shows: the clock at the moment
  it was taken (milliseconds), which assets match under a tolerance and a similarity
  (percent), which assets match by luma, which of the inherited popup handlers would fire,
  and whether the game process is alive. The screen is the stream of frames the device
  delivers, one per call of \<open>device.screenshot()\<close>.
\<close>

type_synonym button = string

datatype offset = NoOffset | OffsetTrue | Offset int int | OffsetBox int int int int

record frame =
  ftime :: nat
  matching :: "button \<Rightarrow> offset \<Rightarrow> nat \<Rightarrow> bool"
  luma_matching :: "button \<Rightarrow> offset \<Rightarrow> bool"
  handler_fires :: "string \<Rightarrow> bool"
  app_is_running :: bool

type_synonym screen = "nat \<Rightarrow> frame"

datatype error =
    RequestHumanTakeover
  | GamePageUnknownError
  | GameNotRunningError
  | ScriptError
  | CampaignNameError
  | AttributeError string
  | KeyError string

text \<open>
  A call returns a value, raises, or is still inside its \<open>while 1\<close> loop when the
  iteration budget of the model is used up.
\<close>

datatype 'a outcome = Return 'a | Raise error | Unfinished

datatype level = INFO | WARNING | ERROR | CRITICAL | ATTR | HR

datatype event =
    Click button
  | Handled string
  | SwitchSet string string
  | Sleep nat
  | Log level string
  | GetOrientation
  | UninstallMinicap

text \<open>
  Modelled from the spec: class \<open>Timer\<close> (module.base.timer) is not among the sources.
  The spec speaks of a timer of a given length that is started or reset and is reached
  once that length has elapsed; a timer that was never started counts as reached
  (the first click of a retry loop is not delayed). The \<open>count\<close> argument the callers
  pass is stored; the spec gives it no meaning.
\<close>

record timer =
  limit :: nat
  tcount :: nat
  started_at :: "nat option"

definition Timer :: "nat \<Rightarrow> nat \<Rightarrow> timer" where
  "Timer l c = \<lparr>limit = l, tcount = c, started_at = None\<rparr>"

definition timer_start :: "nat \<Rightarrow> timer \<Rightarrow> timer" where
  "timer_start t tm = (if started_at tm = None then tm\<lparr>started_at := Some t\<rparr> else tm)"

definition timer_reset :: "nat \<Rightarrow> timer \<Rightarrow> timer" where
  "timer_reset t tm = tm\<lparr>started_at := Some t\<rparr>"

definition timer_clear :: "timer \<Rightarrow> timer" where
  "timer_clear tm = tm\<lparr>started_at := None\<rparr>"

definition timer_reached :: "nat \<Rightarrow> timer \<Rightarrow> bool" where
  "timer_reached t tm = (case started_at tm of None \<Rightarrow> True | Some t0 \<Rightarrow> t0 + limit tm \<le> t)"

text \<open>
  The mutable state of the bot object and of the module-level \<open>Page\<close> objects:
  the index of the current screenshot in the stream, the per-button interval timers,
  the \<open>parent\<close> attribute of every page (keyed by page name), the OpSi click counter,
  the page last recognised, and the trace of everything sent to the device or the log,
  each entry with the index of the frame it was issued on.
\<close>

record state =
  cur :: nat
  has_cached_image :: bool
  interval_timer :: "button \<rightharpoonup> timer"
  parent :: "string \<rightharpoonup> string"
  opsi_reset_fleet_preparation_click :: nat
  ui_current :: "string option"
  trace :: "(nat \<times> event) list"

definition image :: "screen \<Rightarrow> state \<Rightarrow> frame" where
  "image scr s = scr (cur s)"

definition now :: "screen \<Rightarrow> state \<Rightarrow> nat" where
  "now scr s = ftime (image scr s)"

definition emit :: "event \<Rightarrow> state \<Rightarrow> state" where
  "emit e s = s\<lparr>trace := trace s @ [(cur s, e)]\<rparr>"

definition logger :: "level \<Rightarrow> string \<Rightarrow> state \<Rightarrow> state" where
  "logger l m s = emit (Log l m) s"

definition device_click :: "button \<Rightarrow> state \<Rightarrow> state" where
  "device_click b s = emit (Click b) s"

definition device_sleep :: "nat \<Rightarrow> state \<Rightarrow> state" where
  "device_sleep n s = emit (Sleep n) s"

definition device_screenshot :: "state \<Rightarrow> state" where
  "device_screenshot s = s\<lparr>cur := Suc (cur s), has_cached_image := True\<rparr>"

text \<open>The clicks of one button in a trace, and the actions (clicks and handler hits).\<close>

definition clicks_of :: "button \<Rightarrow> (nat \<times> event) list \<Rightarrow> nat" where
  "clicks_of b tr = length (filter (\<lambda>p. snd p = Click b) tr)"

fun is_action :: "event \<Rightarrow> bool" where
  "is_action (Click b) = True"
| "is_action (Handled h) = True"
| "is_action (SwitchSet n v) = True"
| "is_action e = False"

definition actions :: "(nat \<times> event) list \<Rightarrow> event list" where
  "actions tr = filter is_action (map snd tr)"

text \<open>
  Modelled from the spec: \<open>appear\<close>, \<open>appear_then_click\<close>, \<open>interval_reset\<close>,
  \<open>interval_clear\<close> and \<open>get_interval_timer\<close> (module.base.base) are not among the
  sources. The spec gives the perception predicate
  \<open>elementVisible(element, toleranceBox, minRecheckInterval)\<close> with per-element
  rate-limit timers keyed by element identity: with a non-zero interval the element is
  not looked at before the interval since its last hit has elapsed, and a hit restarts
  the interval. The pixel test itself is the frame's \<open>matching\<close>.
\<close>

definition get_interval_timer :: "button \<Rightarrow> nat \<Rightarrow> state \<Rightarrow> timer" where
  "get_interval_timer b interval s =
     (case interval_timer s b of
        None \<Rightarrow> Timer interval 0
      | Some tm \<Rightarrow> if limit tm = interval then tm else Timer interval 0)"

definition set_interval_timer :: "button \<Rightarrow> timer \<Rightarrow> state \<Rightarrow> state" where
  "set_interval_timer b tm s = s\<lparr>interval_timer := (interval_timer s)(b \<mapsto> tm)\<rparr>"

definition appear :: "screen \<Rightarrow> button \<Rightarrow> offset \<Rightarrow> nat \<Rightarrow> nat \<Rightarrow> state \<Rightarrow> bool \<times> state" where
  "appear scr b off interval similarity s =
     (if interval \<noteq> 0 \<and> \<not> timer_reached (now scr s) (get_interval_timer b interval s)
      then (False, s)
      else if matching (image scr s) b off similarity
      then (True,
            if interval \<noteq> 0
            then set_interval_timer b (timer_reset (now scr s) (get_interval_timer b interval s)) s
            else s)
      else (False, s))"

definition appear_then_click ::
  "screen \<Rightarrow> button \<Rightarrow> offset \<Rightarrow> nat \<Rightarrow> nat \<Rightarrow> state \<Rightarrow> bool \<times> state" where
  "appear_then_click scr b off interval similarity s =
     (case appear scr b off interval similarity s of
        (True, s') \<Rightarrow> (True, device_click b s')
      | (False, s') \<Rightarrow> (False, s'))"

definition interval_reset :: "screen \<Rightarrow> button \<Rightarrow> state \<Rightarrow> state" where
  "interval_reset scr b s =
     set_interval_timer b
       (timer_reset (now scr s)
          (case interval_timer s b of None \<Rightarrow> Timer 3000 0 | Some tm \<Rightarrow> tm)) s"

definition interval_clear :: "button \<Rightarrow> state \<Rightarrow> state" where
  "interval_clear b s =
     set_interval_timer b
       (timer_clear (case interval_timer s b of None \<Rightarrow> Timer 3000 0 | Some tm \<Rightarrow> tm)) s"

text \<open>
  Modelled from the spec: the popup handlers inherited from \<open>InfoHandler\<close> and
  \<open>Combat\<close> (\<open>handle_guild_popup_cancel\<close>, \<open>handle_popup_confirm\<close>,
  \<open>handle_urgent_commission\<close>, \<open>handle_story_skip\<close>, \<open>handle_popup_single\<close>,
  \<open>handle_popup_single_white\<close>, \<open>handle_auto_search_continue\<close>, \<open>handle_retirement\<close>,
  \<open>handle_combat_low_emotion\<close>, \<open>handle_combat_automation_confirm\<close>) are not among
  the sources. The spec makes each an interrupt rule: a predicate on the current frame
  and an action that is a single click, reporting whether it handled something.
\<close>

definition handler :: "screen \<Rightarrow> string \<Rightarrow> state \<Rightarrow> bool \<times> state" where
  "handler scr name s =
     (if handler_fires (image scr s) name then (True, emit (Handled name) s) else (False, s))"

section \<open>Pages\<close>

text \<open>
  Modelled from the spec: class \<open>Page\<close> and the page declarations (module.ui.page) are
  not among the sources. A page has a name, a check button (none for a synthetic page)
  and its links, the button to click for each neighbour. The declarations are a
  parameter: the pages in the order of \<open>Page.iter_pages()\<close>, and the three pages the
  sources name. Pages are compared by name.
\<close>

record page =
  pname :: string
  check_button :: "button option"
  links :: "(string \<times> button) list"

record graph =
  iter_pages :: "page list"
  page_main :: page
  page_main_white :: page
  page_coalition :: page

text \<open>
  Sequencing of calls that may raise: the first raise ends the computation and keeps
  the state reached so far.
\<close>

definition andthen ::
  "(state \<Rightarrow> 'a outcome \<times> state) \<Rightarrow> ('a \<Rightarrow> state \<Rightarrow> 'b outcome \<times> state) \<Rightarrow>
   state \<Rightarrow> 'b outcome \<times> state" where
  "andthen m f s =
     (case m s of
        (Return x, s') \<Rightarrow> f x s'
      | (Raise e, s') \<Rightarrow> (Raise e, s')
      | (Unfinished, s') \<Rightarrow> (Unfinished, s'))"

definition ret :: "'a \<Rightarrow> state \<Rightarrow> 'a outcome \<times> state" where
  "ret x s = (Return x, s)"

definition raise :: "error \<Rightarrow> state \<Rightarrow> 'a outcome \<times> state" where
  "raise e s = (Raise e, s)"

definition lift :: "(state \<Rightarrow> 'a \<times> state) \<Rightarrow> state \<Rightarrow> 'a outcome \<times> state" where
  "lift f s = (case f s of (x, s') \<Rightarrow> (Return x, s'))"

text \<open>
  Looking for a page's check button. A page without one cannot be looked for: the call
  on \<open>None\<close> raises.
\<close>

definition check_appear ::
  "screen \<Rightarrow> button option \<Rightarrow> offset \<Rightarrow> nat \<Rightarrow> state \<Rightarrow> bool outcome \<times> state" where
  "check_appear scr b off interval s =
     (case b of
        None \<Rightarrow> (Raise (AttributeError ''NoneType''), s)
      | Some b' \<Rightarrow> lift (appear scr b' off interval 85) s)"

definition ui_page_appear ::
  "screen \<Rightarrow> graph \<Rightarrow> page \<Rightarrow> offset \<Rightarrow> nat \<Rightarrow> state \<Rightarrow> bool outcome \<times> state" where
  "ui_page_appear scr g pg off interval =
     (if pname pg = pname (page_main g)
      then andthen (check_appear scr (check_button (page_main_white g)) off interval) (\<lambda>w.
             if w then ret True
             else andthen (check_appear scr (check_button (page_main g)) (Offset 5 5) interval) (\<lambda>m.
                    if m then ret True else ret False))
      else check_appear scr (check_button pg) off interval)"

definition is_in_main :: "screen \<Rightarrow> graph \<Rightarrow> offset \<Rightarrow> nat \<Rightarrow> state \<Rightarrow> bool outcome \<times> state" where
  "is_in_main scr g off interval = ui_page_appear scr g (page_main g) off interval"

section \<open>Coalition events (module/coalition/ui.py)\<close>

definition lower_char :: "char \<Rightarrow> char" where
  "lower_char c =
     (case map_of (zip ''ABCDEFGHIJKLMNOPQRSTUVWXYZ'' ''abcdefghijklmnopqrstuvwxyz'') c of
        Some d \<Rightarrow> d
      | None \<Rightarrow> c)"

definition lower :: "string \<Rightarrow> string" where
  "lower st = map lower_char st"

text \<open>
  Modelled from the spec: class \<open>Switch\<close> (module.ui.switch) is not among the sources.
  A switch has a name and its states with their buttons; setting it is one opaque
  action of the device, recorded with the name of the switch and the state asked for.
\<close>

record switch =
  sw_name :: string
  is_selector :: bool
  sw_offset :: offset
  state_list :: "(string \<times> button) list"

definition Switch :: "string \<Rightarrow> bool \<Rightarrow> offset \<Rightarrow> switch" where
  "Switch name sel off = \<lparr>sw_name = name, is_selector = sel, sw_offset = off, state_list = []\<rparr>"

definition add_state :: "string \<Rightarrow> button \<Rightarrow> switch \<Rightarrow> switch" where
  "add_state st b sw = sw\<lparr>state_list := state_list sw @ [(st, b)]\<rparr>"

definition switch_set :: "switch \<Rightarrow> string \<Rightarrow> state \<Rightarrow> state" where
  "switch_set sw st s = emit (SwitchSet (sw_name sw) st) s"

definition in_coalition :: "screen \<Rightarrow> graph \<Rightarrow> state \<Rightarrow> bool outcome \<times> state" where
  "in_coalition scr g = ui_page_appear scr g (page_coalition g) (Offset 20 20) 0"

definition in_coalition_20251120_difficulty_selection :: "screen \<Rightarrow> state \<Rightarrow> bool \<times> state" where
  "in_coalition_20251120_difficulty_selection scr =
     appear scr ''DAL_DIFFICULTY_EXIT'' (Offset 20 20) 0 85"

definition in_coalition_20260122_difficulty_selection :: "screen \<Rightarrow> state \<Rightarrow> bool \<times> state" where
  "in_coalition_20260122_difficulty_selection scr =
     appear scr ''Light_Shadow_Fashion_DIFFICULTY_EXIT'' (Offset 20 20) 0 85"

definition coalition_ensure_fleet :: "string \<Rightarrow> string \<Rightarrow> state \<Rightarrow> unit outcome \<times> state" where
  "coalition_ensure_fleet event mode s =
     (let fleet_switch = Switch ''FleetMode'' True NoOffset in
      case (if event = ''coalition_20230323''
            then Some (add_state ''multi'' ''FROSTFALL_SWITCH_MULTI''
                        (add_state ''single'' ''FROSTFALL_SWITCH_SINGLE'' fleet_switch))
            else if event = ''coalition_20240627''
            then Some (add_state ''multi'' ''ACADEMY_SWITCH_MULTI''
                        (add_state ''single'' ''ACADEMY_SWITCH_SINGLE'' fleet_switch))
            else if event = ''coalition_20250626''
            then Some (add_state ''multi'' ''NEONCITY_SWITCH_MULTI''
                        (add_state ''single'' ''NEONCITY_SWITCH_SINGLE'' fleet_switch))
            else if event = ''coalition_20260122''
            then Some (add_state ''multi'' ''Light_Shadow_Fashion_SWITCH_MULTI''
                        (add_state ''single'' ''Light_Shadow_Fashion_SWITCH_SINGLE'' fleet_switch))
            else None) of
        None \<Rightarrow>
          (Raise ScriptError, logger ERROR (''FLEET_SWITCH is not defined in event '' @ event) s)
      | Some sw \<Rightarrow>
          if mode = ''single'' then (Return (), switch_set sw ''single'' s)
          else if mode = ''multi'' then (Return (), switch_set sw ''multi'' s)
          else (Return (), logger WARNING (''Unknown coalition fleet mode: '' @ mode) s))"

definition coalition_get_entrance_dic :: "((string \<times> string) \<times> button) list" where
  "coalition_get_entrance_dic =
     [((''coalition_20230323'', ''tc1''), ''FROSTFALL_TC1''),
      ((''coalition_20230323'', ''tc2''), ''FROSTFALL_TC2''),
      ((''coalition_20230323'', ''tc3''), ''FROSTFALL_TC3''),
      ((''coalition_20230323'', ''sp''), ''FROSTFALL_SP''),
      ((''coalition_20230323'', ''ex''), ''FROSTFALL_EX''),
      ((''coalition_20240627'', ''easy''), ''ACADEMY_EASY''),
      ((''coalition_20240627'', ''normal''), ''ACADEMY_NORMAL''),
      ((''coalition_20240627'', ''hard''), ''ACADEMY_HARD''),
      ((''coalition_20240627'', ''sp''), ''ACADEMY_SP''),
      ((''coalition_20240627'', ''ex''), ''ACADEMY_EX''),
      ((''coalition_20250626'', ''easy''), ''NEONCITY_EASY''),
      ((''coalition_20250626'', ''normal''), ''NEONCITY_NORMAL''),
      ((''coalition_20250626'', ''hard''), ''NEONCITY_HARD''),
      ((''coalition_20250626'', ''sp''), ''NEONCITY_SP''),
      ((''coalition_20250626'', ''ex''), ''NEONCITY_EX''),
      ((''coalition_20251120'', ''area1-normal''), ''DAL_AREA1''),
      ((''coalition_20251120'', ''area2-normal''), ''DAL_AREA2''),
      ((''coalition_20251120'', ''area3-normal''), ''DAL_AREA3''),
      ((''coalition_20251120'', ''area4-normal''), ''DAL_AREA4''),
      ((''coalition_20251120'', ''area5-normal''), ''DAL_AREA5''),
      ((''coalition_20251120'', ''area6-normal''), ''DAL_AREA6''),
      ((''coalition_20251120'', ''area1-hard''), ''DAL_AREA1''),
      ((''coalition_20251120'', ''area2-hard''), ''DAL_AREA2''),
      ((''coalition_20251120'', ''area3-hard''), ''DAL_AREA3''),
      ((''coalition_20251120'', ''area4-hard''), ''DAL_AREA4''),
      ((''coalition_20251120'', ''area5-hard''), ''DAL_AREA5''),
      ((''coalition_20251120'', ''area6-hard''), ''DAL_AREA6''),
      ((''coalition_20260122'', ''area1-normal''), ''Light_Shadow_Fashion_AREA1''),
      ((''coalition_20260122'', ''area2-normal''), ''Light_Shadow_Fashion_AREA2''),
      ((''coalition_20260122'', ''area3-normal''), ''Light_Shadow_Fashion_AREA3''),
      ((''coalition_20260122'', ''area4-normal''), ''Light_Shadow_Fashion_AREA4''),
      ((''coalition_20260122'', ''area5-normal''), ''Light_Shadow_Fashion_AREA5''),
      ((''coalition_20260122'', ''area6-normal''), ''Light_Shadow_Fashion_AREA6''),
      ((''coalition_20260122'', ''area1-hard''), ''Light_Shadow_Fashion_AREA1''),
      ((''coalition_20260122'', ''area2-hard''), ''Light_Shadow_Fashion_AREA2''),
      ((''coalition_20260122'', ''area3-hard''), ''Light_Shadow_Fashion_AREA3''),
      ((''coalition_20260122'', ''area4-hard''), ''Light_Shadow_Fashion_AREA4''),
      ((''coalition_20260122'', ''area5-hard''), ''Light_Shadow_Fashion_AREA5''),
      ((''coalition_20260122'', ''area6-hard''), ''Light_Shadow_Fashion_AREA6'')]"

text \<open>
  Python's \<open>repr\<close> of a string that holds no quote and no escape: the string between
  single quotes. It is what the \<open>str\<close> of a \<open>KeyError\<close> and of a list print of their
  string members.
\<close>

definition py_repr :: "string \<Rightarrow> string" where
  "py_repr x = [CHR 0x27] @ x @ [CHR 0x27]"

text \<open>
  A lookup in one of the stage tables: a missing key is logged, as the \<open>str\<close> of the
  \<open>KeyError\<close> (the \<open>repr\<close> of the key tuple), and raised as \<open>CampaignNameError\<close>.
\<close>

definition dic_lookup ::
  "((string \<times> string) \<times> 'a) list \<Rightarrow> string \<Rightarrow> string \<Rightarrow> state \<Rightarrow> 'a outcome \<times> state" where
  "dic_lookup dic event stage s =
     (let stage' = lower stage in
      case map_of dic (event, stage') of
        Some v \<Rightarrow> (Return v, s)
      | None \<Rightarrow> (Raise CampaignNameError, logger ERROR (''('' @ py_repr event @ '', '' @ py_repr stage' @ '')'') s))"

definition coalition_get_entrance :: "string \<Rightarrow> string \<Rightarrow> state \<Rightarrow> button outcome \<times> state" where
  "coalition_get_entrance event stage = dic_lookup coalition_get_entrance_dic event stage"

definition coalition_20251120_get_entrance_difficulty_dic :: "((string \<times> string) \<times> button) list" where
  "coalition_20251120_get_entrance_difficulty_dic =
     [((''coalition_20251120'', ''area1-normal''), ''DAL_NORMAL''),
      ((''coalition_20251120'', ''area2-normal''), ''DAL_NORMAL''),
      ((''coalition_20251120'', ''area3-normal''), ''DAL_NORMAL''),
      ((''coalition_20251120'', ''area4-normal''), ''DAL_NORMAL''),
      ((''coalition_20251120'', ''area5-normal''), ''DAL_NORMAL''),
      ((''coalition_20251120'', ''area6-normal''), ''DAL_NORMAL''),
      ((''coalition_20251120'', ''area1-hard''), ''DAL_HARD''),
      ((''coalition_20251120'', ''area2-hard''), ''DAL_HARD''),
      ((''coalition_20251120'', ''area3-hard''), ''DAL_HARD''),
      ((''coalition_20251120'', ''area4-hard''), ''DAL_HARD''),
      ((''coalition_20251120'', ''area5-hard''), ''DAL_HARD''),
      ((''coalition_20251120'', ''area6-hard''), ''DAL_HARD''),
      ((''coalition_20260122'', ''area1-normal''), ''Light_Shadow_Fashion_NORMAL''),
      ((''coalition_20260122'', ''area2-normal''), ''Light_Shadow_Fashion_NORMAL''),
      ((''coalition_20260122'', ''area3-normal''), ''Light_Shadow_Fashion_NORMAL''),
      ((''coalition_20260122'', ''area4-normal''), ''Light_Shadow_Fashion_NORMAL''),
      ((''coalition_20260122'', ''area5-normal''), ''Light_Shadow_Fashion_NORMAL''),
      ((''coalition_20260122'', ''area6-normal''), ''Light_Shadow_Fashion_NORMAL''),
      ((''coalition_20260122'', ''area1-hard''), ''Light_Shadow_Fashion_HARD''),
      ((''coalition_20260122'', ''area2-hard''), ''Light_Shadow_Fashion_HARD''),
      ((''coalition_20260122'', ''area3-hard''), ''Light_Shadow_Fashion_HARD''),
      ((''coalition_20260122'', ''area4-hard''), ''Light_Shadow_Fashion_HARD''),
      ((''coalition_20260122'', ''area5-hard''), ''Light_Shadow_Fashion_HARD''),
      ((''coalition_20260122'', ''area6-hard''), ''Light_Shadow_Fashion_HARD'')]"

definition coalition_20251120_get_entrance_difficulty ::
  "string \<Rightarrow> string \<Rightarrow> state \<Rightarrow> button outcome \<times> state" where
  "coalition_20251120_get_entrance_difficulty event stage =
     dic_lookup coalition_20251120_get_entrance_difficulty_dic event stage"

definition coalition_get_fleet_preparation :: "string \<Rightarrow> state \<Rightarrow> button outcome \<times> state" where
  "coalition_get_fleet_preparation event s =
     (if event = ''coalition_20230323'' then (Return ''FROSTFALL_FLEET_PREPARATION'', s)
      else if event = ''coalition_20240627'' then (Return ''ACEDEMY_FLEET_PREPARATION'', s)
      else if event = ''coalition_20250626'' then (Return ''NEONCITY_FLEET_PREPARATION'', s)
      else if event = ''coalition_20251120'' then (Return ''DAL_FLEET_PREPARATION'', s)
      else if event = ''coalition_20260122'' then (Return ''Light_Shadow_Fashion_PREPARATION'', s)
      else (Raise ScriptError,
            logger ERROR (''FLEET_PREPARATION is not defined in event '' @ event) s))"

definition handle_fleet_preparation ::
  "string \<Rightarrow> string \<Rightarrow> string \<Rightarrow> state \<Rightarrow> bool outcome \<times> state" where
  "handle_fleet_preparation event stage mode =
     (let stage' = lower stage in
      if event = ''coalition_20230323'' \<and> stage' \<in> set [''tc1'', ''sp''] then ret False
      else if event = ''coalition_20240627'' \<and> stage' \<in> set [''easy'', ''sp'', ''ex''] then ret False
      else if event = ''coalition_20250626'' \<and> stage' \<in> set [''easy'', ''sp'', ''ex''] then ret False
      else andthen (coalition_ensure_fleet event mode) (\<lambda>u. ret True))"

text \<open>
  The methods class \<open>CoalitionUI\<close> defines, in the order of the file. A method the class
  does not define is looked for in the base classes (\<open>Combat\<close> and its ancestors, not
  among the sources): they are a parameter, the methods they offer by name.
\<close>

definition CoalitionUI_methods :: "string list" where
  "CoalitionUI_methods =
     [''in_coalition'', ''in_coalition_20251120_difficulty_selection'',
      ''in_coalition_20260122_difficulty_selection'', ''coalition_ensure_mode'',
      ''coalition_ensure_fleet'', ''coalition_get_entrance'',
      ''coalition_20251120_get_entrance_difficulty'', ''coalition_get_battles'',
      ''coalition_get_fleet_preparation'', ''handle_fleet_preparation'',
      ''coalition_map_exit'', ''enter_map'']"

type_synonym difficulty_method = "string \<Rightarrow> string \<Rightarrow> state \<Rightarrow> button outcome \<times> state"

definition getattr_difficulty ::
  "(string \<rightharpoonup> difficulty_method) \<Rightarrow> string \<Rightarrow> error + difficulty_method" where
  "getattr_difficulty inherited name =
     (if name \<in> set CoalitionUI_methods \<and> name = ''coalition_20251120_get_entrance_difficulty''
      then Inr coalition_20251120_get_entrance_difficulty
      else case inherited name of
             None \<Rightarrow> Inl (AttributeError name)
           | Some m \<Rightarrow> Inr m)"

record enter_locals =
  campaign_timer :: timer
  campaign_difficulty_timer :: timer
  fleet_timer :: timer
  campaign_click :: nat
  campaign_difficulty_click :: nat
  fleet_click :: nat

datatype 'l ctl = Break | Continue 'l

text \<open>The initialisation of \<open>enter_map\<close>, up to the timers: the three buttons.\<close>

definition enter_map_buttons ::
  "(string \<rightharpoonup> difficulty_method) \<Rightarrow> string \<Rightarrow> string \<Rightarrow>
   state \<Rightarrow> (button \<times> button option \<times> button) outcome \<times> state" where
  "enter_map_buttons inherited event stage =
     andthen (coalition_get_entrance event stage) (\<lambda>button0.
     andthen (if event \<in> set [''coalition_20251120'']
              then andthen (coalition_20251120_get_entrance_difficulty event stage) (\<lambda>d. ret (Some d))
              else ret None) (\<lambda>button_difficulty0.
     andthen (coalition_get_entrance event stage) (\<lambda>button.
     andthen (if event \<in> set [''coalition_20260122'']
              then (case getattr_difficulty inherited ''coalition_20260122_get_entrance_difficulty'' of
                      Inl e \<Rightarrow> raise e
                    | Inr m \<Rightarrow> andthen (m event stage) (\<lambda>d. ret (Some d)))
              else ret None) (\<lambda>button_difficulty.
     andthen (coalition_get_fleet_preparation event) (\<lambda>fleet_preparation.
       ret (button, button_difficulty, fleet_preparation))))))"

definition enter_locals_init :: enter_locals where
  "enter_locals_init =
     \<lparr>campaign_timer = Timer 5000 0, campaign_difficulty_timer = Timer 5000 0,
      fleet_timer = Timer 5000 0, campaign_click = 0, campaign_difficulty_click = 0,
      fleet_click = 0\<rparr>"

definition str_option :: "button option \<Rightarrow> string" where
  "str_option b = (case b of None \<Rightarrow> ''None'' | Some n \<Rightarrow> n)"

text \<open>The checks at the head of the loop body: too many clicks, fleets not prepared.\<close>

definition enter_map_guards ::
  "screen \<Rightarrow> button \<Rightarrow> button option \<Rightarrow> enter_locals \<Rightarrow> state \<Rightarrow> unit outcome \<times> state" where
  "enter_map_guards scr button button_difficulty L s =
     (if campaign_click L > 5
      then (Raise RequestHumanTakeover,
            logger CRITICAL ''Possible reason #1: You haven't cleared previous stage to unlock the stage.''
              (logger CRITICAL (''Failed to enter '' @ button @ '', too many click on '' @ button) s))
      else if campaign_difficulty_click L > 5
      then (Raise RequestHumanTakeover,
            logger CRITICAL ''Possible reason #1: The difficulty asset is not correct.''
              (logger CRITICAL (''Failed to enter '' @ str_option button_difficulty
                                 @ '', too many click on '' @ str_option button_difficulty) s))
      else if fleet_click L > 5
      then (Raise RequestHumanTakeover,
            logger CRITICAL ''Possible reason #2: This stage can only be farmed once a day, but it's the second time that you are entering''
              (logger CRITICAL ''Possible reason #1: Your fleets haven't satisfied the stat restrictions of this stage.''
                (logger CRITICAL (''Failed to enter '' @ button @ '', too many click on FLEET_PREPARATION'') s)))
      else if fst (appear scr ''FLEET_NOT_PREPARED'' (Offset 20 20) 0 85 s)
      then (Raise RequestHumanTakeover,
            logger CRITICAL ''Please prepare you fleets before running coalition battles''
              (logger CRITICAL ''FLEET_NOT_PREPARED'' s))
      else if fst (appear scr ''EMPTY_FLAGSHIP'' (Offset 20 20) 0 85 s)
      then (Raise RequestHumanTakeover,
            logger CRITICAL ''EMPTY_FLAGSHIP, Please prepare you fleets before running coalition battles'' s)
      else if fst (appear scr ''EMPTY_VANGUARD'' (Offset 20 20) 0 85 s)
      then (Raise RequestHumanTakeover,
            logger CRITICAL ''EMPTY_VANGUARD, Please prepare you fleets before running coalition battles'' s)
      else if fst (appear scr ''Light_Shadow_Fashion_FLEET_NOT_PREPARED'' (Offset 20 20) 0 85 s)
      then (Raise RequestHumanTakeover,
            logger CRITICAL ''Please prepare you fleets before running coalition battles''
              (logger CRITICAL ''Light_Shadow_Fashion_FLEET_NOT_PREPARED'' s))
      else if fst (appear scr ''Light_Shadow_Fashion_EMPTY_FLAGSHIP'' (Offset 20 20) 0 85 s)
      then (Raise RequestHumanTakeover,
            logger CRITICAL ''EMPTY_FLAGSHIP, Please prepare you fleets before running coalition battles'' s)
      else if fst (appear scr ''Light_Shadow_Fashion_EMPTY_VANGUARD'' (Offset 20 20) 0 85 s)
      then (Raise RequestHumanTakeover,
            logger CRITICAL ''Light_Shadow_Fashion_EMPTY_VANGUARD, Please prepare you fleets before running coalition battles'' s)
      else (Return (), s))"

text \<open>
  The popup handlers of the loop body, in order; each one that fires ends the iteration
  (\<open>continue\<close>), two of them after resetting the campaign timer.
\<close>

definition enter_map_popups ::
  "screen \<Rightarrow> enter_locals \<Rightarrow> state \<Rightarrow> enter_locals option \<times> state" where
  "enter_map_popups scr L s0 =
     (case handler scr ''handle_guild_popup_cancel'' s0 of
        (True, s) \<Rightarrow> (Some L, s)
      | (False, s) \<Rightarrow>
     (case handler scr ''handle_auto_search_continue'' s of
        (True, s) \<Rightarrow> (Some (L\<lparr>campaign_timer := timer_reset (now scr s) (campaign_timer L)\<rparr>), s)
      | (False, s) \<Rightarrow>
     (case handler scr ''handle_retirement'' s of
        (True, s) \<Rightarrow> (Some L, s)
      | (False, s) \<Rightarrow>
     (case handler scr ''handle_combat_low_emotion'' s of
        (True, s) \<Rightarrow> (Some L, s)
      | (False, s) \<Rightarrow>
     (case handler scr ''handle_urgent_commission'' s of
        (True, s) \<Rightarrow> (Some L, s)
      | (False, s) \<Rightarrow>
     (case handler scr ''handle_story_skip'' s of
        (True, s) \<Rightarrow> (Some (L\<lparr>campaign_timer := timer_reset (now scr s) (campaign_timer L)\<rparr>), s)
      | (False, s) \<Rightarrow>
     (case handler scr ''handle_combat_automation_confirm'' s of
        (True, s) \<Rightarrow> (Some L, s)
      | (False, s) \<Rightarrow> (None, s))))))))"

text \<open>The click branches of the loop body: entrance, difficulty, fleet preparation.\<close>

definition enter_map_fleet ::
  "screen \<Rightarrow> string \<Rightarrow> string \<Rightarrow> string \<Rightarrow> button \<Rightarrow> enter_locals \<Rightarrow>
   state \<Rightarrow> enter_locals ctl outcome \<times> state" where
  "enter_map_fleet scr event stage mode fleet_preparation L s =
     (if timer_reached (now scr s) (fleet_timer L)
         \<and> fst (appear scr fleet_preparation (Offset 20 50) 0 85 s)
      then andthen (handle_fleet_preparation event stage mode) (\<lambda>h s1.
             (Return (Continue (L\<lparr>fleet_click := fleet_click L + 1,
                                   fleet_timer := timer_reset (now scr s1) (fleet_timer L),
                                   campaign_timer := timer_reset (now scr s1) (campaign_timer L)\<rparr>)),
              device_click fleet_preparation s1)) s
      else (Return (Continue L), s))"

definition enter_map_difficulty ::
  "screen \<Rightarrow> string \<Rightarrow> button option \<Rightarrow> enter_locals \<Rightarrow> state \<Rightarrow> enter_locals option \<times> state" where
  "enter_map_difficulty scr event button_difficulty L s =
     (if event \<in> set [''coalition_20251120'']
         \<and> timer_reached (now scr s) (campaign_difficulty_timer L)
         \<and> fst (in_coalition_20251120_difficulty_selection scr s)
         \<and> button_difficulty \<noteq> None
      then (Some (L\<lparr>campaign_difficulty_click := campaign_difficulty_click L + 1,
                    campaign_difficulty_timer := timer_reset (now scr s) (campaign_difficulty_timer L)\<rparr>),
            device_click (the button_difficulty) s)
      else if event \<in> set [''coalition_20260122'']
         \<and> timer_reached (now scr s) (campaign_difficulty_timer L)
         \<and> fst (in_coalition_20260122_difficulty_selection scr s)
         \<and> button_difficulty \<noteq> None
      then (Some (L\<lparr>campaign_difficulty_click := campaign_difficulty_click L + 1,
                    campaign_difficulty_timer := timer_reset (now scr s) (campaign_difficulty_timer L)\<rparr>),
            device_click (the button_difficulty) s)
      else (None, s))"

definition enter_map_clicks ::
  "screen \<Rightarrow> graph \<Rightarrow> string \<Rightarrow> string \<Rightarrow> string \<Rightarrow> button \<Rightarrow> button option \<Rightarrow> button \<Rightarrow>
   enter_locals \<Rightarrow> state \<Rightarrow> enter_locals ctl outcome \<times> state" where
  "enter_map_clicks scr g event stage mode button button_difficulty fleet_preparation L s =
     andthen (if timer_reached (now scr s) (campaign_timer L) then in_coalition scr g else ret False)
       (\<lambda>c s1.
          if c
          then (Return (Continue (L\<lparr>campaign_click := campaign_click L + 1,
                                     campaign_timer := timer_reset (now scr s1) (campaign_timer L)\<rparr>)),
                device_click button s1)
          else (case enter_map_difficulty scr event button_difficulty L s1 of
                  (Some L', s2) \<Rightarrow> (Return (Continue L'), s2)
                | (None, s2) \<Rightarrow> enter_map_fleet scr event stage mode fleet_preparation L s2)) s"

definition enter_map_tick ::
  "screen \<Rightarrow> graph \<Rightarrow> string \<Rightarrow> string \<Rightarrow> string \<Rightarrow> button \<Rightarrow> button option \<Rightarrow> button \<Rightarrow>
   enter_locals \<Rightarrow> state \<Rightarrow> enter_locals ctl outcome \<times> state" where
  "enter_map_tick scr g event stage mode button button_difficulty fleet_preparation L =
     andthen (enter_map_guards scr button button_difficulty L) (\<lambda>u s1.
       if fst (appear scr ''BATTLE_PREPARATION'' (Offset 20 20) 0 85 s1)
       then (Return Break, s1)
       else (case enter_map_popups scr L s1 of
               (Some L', s2) \<Rightarrow> (Return (Continue L'), s2)
             | (None, s2) \<Rightarrow>
                 enter_map_clicks scr g event stage mode button button_difficulty fleet_preparation L s2))"

fun enter_map_loop ::
  "nat \<Rightarrow> screen \<Rightarrow> graph \<Rightarrow> string \<Rightarrow> string \<Rightarrow> string \<Rightarrow> button \<Rightarrow> button option \<Rightarrow> button \<Rightarrow>
   bool \<Rightarrow> enter_locals \<Rightarrow> state \<Rightarrow> unit outcome \<times> state" where
  "enter_map_loop 0 scr g event stage mode button button_difficulty fleet_preparation skip L s =
     (Unfinished, s)"
| "enter_map_loop (Suc n) scr g event stage mode button button_difficulty fleet_preparation skip L s =
     (case enter_map_tick scr g event stage mode button button_difficulty fleet_preparation L
             (if skip then s else device_screenshot s) of
        (Return Break, s') \<Rightarrow> (Return (), s')
      | (Return (Continue L'), s') \<Rightarrow>
          enter_map_loop n scr g event stage mode button button_difficulty fleet_preparation False L' s'
      | (Raise e, s') \<Rightarrow> (Raise e, s')
      | (Unfinished, s') \<Rightarrow> (Unfinished, s'))"

definition enter_map ::
  "nat \<Rightarrow> screen \<Rightarrow> graph \<Rightarrow> (string \<rightharpoonup> difficulty_method) \<Rightarrow> string \<Rightarrow> string \<Rightarrow> string \<Rightarrow> bool \<Rightarrow>
   state \<Rightarrow> unit outcome \<times> state" where
  "enter_map n scr g inherited event stage mode skip_first_screenshot =
     andthen (enter_map_buttons inherited event stage) (\<lambda>(button, button_difficulty, fleet_preparation).
       enter_map_loop n scr g event stage mode button button_difficulty fleet_preparation
         skip_first_screenshot enter_locals_init)"

section \<open>Interrupt handling (module/ui/ui.py)\<close>

text \<open>
  A handler function of the source is a sequence of statements
  \<open>if <rule>: return True\<close> closed by \<open>return False\<close>. Each rule is a computation
  that reports whether it handled something; the sequence runs them in order and stops
  at the first that does (or that raises).
\<close>

type_synonym rule = "state \<Rightarrow> bool outcome \<times> state"

fun chain :: "rule list \<Rightarrow> rule" where
  "chain [] s = (Return False, s)"
| "chain (r # rs) s =
     (case r s of
        (Return True, s') \<Rightarrow> (Return True, s')
      | (Return False, s') \<Rightarrow> chain rs s'
      | (Raise e, s') \<Rightarrow> (Raise e, s')
      | (Unfinished, s') \<Rightarrow> (Unfinished, s'))"

text \<open>
  The two shapes most rules have: \<open>if self.appear_then_click(B, ...): return True\<close>, and
  \<open>if self.appear(B, ...): <statements>; return True\<close>.
\<close>

definition click_rule :: "screen \<Rightarrow> button \<Rightarrow> offset \<Rightarrow> nat \<Rightarrow> rule" where
  "click_rule scr b off interval = lift (appear_then_click scr b off interval 85)"

definition appear_rule :: "screen \<Rightarrow> button \<Rightarrow> offset \<Rightarrow> nat \<Rightarrow> nat \<Rightarrow> (state \<Rightarrow> state) \<Rightarrow> rule" where
  "appear_rule scr b off interval similarity body s =
     (case appear scr b off interval similarity s of
        (True, s') \<Rightarrow> (Return True, body s')
      | (False, s') \<Rightarrow> (Return False, s'))"

definition handler_rule :: "screen \<Rightarrow> string \<Rightarrow> rule" where
  "handler_rule scr name = lift (handler scr name)"

definition ui_additional_log :: "button \<Rightarrow> button \<Rightarrow> state \<Rightarrow> state" where
  "ui_additional_log b target s = logger INFO (''UI additional: '' @ b @ '' -> '' @ target) s"

text \<open>
  \<open>if self.appear(B, ...): logger.info(...); if self.appear_then_click(GOTO_MAIN, ...):
  return True\<close>: the rule declines when \<open>GOTO_MAIN\<close> is not there.
\<close>

definition goto_main_rule :: "screen \<Rightarrow> button \<Rightarrow> nat \<Rightarrow> rule" where
  "goto_main_rule scr b interval s =
     (case appear scr b (Offset 30 30) interval 85 s of
        (True, s') \<Rightarrow>
          lift (appear_then_click scr ''GOTO_MAIN'' (Offset 30 30) 0 85)
            (ui_additional_log b ''GOTO_MAIN'' s')
      | (False, s') \<Rightarrow> (Return False, s'))"

definition player_check_rule :: "screen \<Rightarrow> rule" where
  "player_check_rule scr s =
     (case appear scr ''PLAYER_CHECK'' (Offset 30 30) 3000 85 s of
        (True, s') \<Rightarrow>
          (case appear_then_click scr ''GOTO_MAIN'' (Offset 30 30) 0 85
                  (ui_additional_log ''PLAYER_CHECK'' ''GOTO_MAIN'' s') of
             (True, s'') \<Rightarrow> (Return True, s'')
           | (False, s'') \<Rightarrow> lift (appear_then_click scr ''BACK_ARROW'' (Offset 30 30) 0 85) s'')
      | (False, s') \<Rightarrow> (Return False, s'))"

definition ui_page_main_popups_rules :: "screen \<Rightarrow> bool \<Rightarrow> rule list" where
  "ui_page_main_popups_rules scr get_ship =
     [handler_rule scr ''handle_guild_popup_cancel'',
      click_rule scr ''LOGIN_ANNOUNCE'' (Offset 30 30) 3000,
      click_rule scr ''LOGIN_ANNOUNCE_2'' (Offset 30 30) 3000,
      click_rule scr ''GET_ITEMS_1'' OffsetTrue 3000,
      click_rule scr ''GET_ITEMS_2'' OffsetTrue 3000,
      (if get_ship then click_rule scr ''GET_SHIP'' NoOffset 5000 else ret False),
      click_rule scr ''LOGIN_RETURN_SIGN'' (Offset 30 30) 3000,
      goto_main_rule scr ''EVENT_LIST_CHECK'' 5000,
      click_rule scr ''MONTHLY_PASS_NOTICE'' (Offset 30 30) 3000,
      click_rule scr ''BATTLE_PASS_NOTICE'' (Offset 30 30) 3000,
      appear_rule scr ''BATTLE_PASS_NEW_SEASON'' (Offset 30 30) 3000 85
        (\<lambda>s. device_click ''BACK_ARROW'' (ui_additional_log ''BATTLE_PASS_NEW_SEASON'' ''BACK_ARROW'' s)),
      handler_rule scr ''handle_popup_single:ITEM_EXPIRED'',
      handler_rule scr ''handle_popup_single_white'',
      goto_main_rule scr ''SHIPYARD_CHECK'' 5000,
      goto_main_rule scr ''META_CHECK'' 5000,
      player_check_rule scr]"

definition ui_page_main_popups :: "screen \<Rightarrow> bool \<Rightarrow> rule" where
  "ui_page_main_popups scr get_ship = chain (ui_page_main_popups_rules scr get_ship)"

definition reset_fleet_preparation_rule :: "screen \<Rightarrow> rule" where
  "reset_fleet_preparation_rule scr s =
     (case appear_then_click scr ''RESET_FLEET_PREPARATION'' (Offset 30 30) 3000 85 s of
        (True, s') \<Rightarrow>
          (Return True,
           interval_reset scr ''RESET_TICKET_POPUP''
             (interval_reset scr ''FLEET_PREPARATION''
                (s'\<lparr>opsi_reset_fleet_preparation_click := opsi_reset_fleet_preparation_click s' + 1\<rparr>)))
      | (False, s') \<Rightarrow> (Return False, s'))"

text \<open>
  The rules of \<open>ui_page_os_popups\<close>, in order. The \<open>GOTO_MAIN.clear_offset()\<close> of the
  last rule only forgets where the button was last matched, which has no part here.
\<close>

definition ui_page_os_popups_rules :: "screen \<Rightarrow> rule list" where
  "ui_page_os_popups_rules scr =
     [click_rule scr ''RESET_TICKET_POPUP'' (Offset 30 30) 3000,
      reset_fleet_preparation_rule scr,
      appear_rule scr ''EXCHANGE_CHECK'' (Offset 30 30) 3000 85
        (\<lambda>s. device_click ''GOTO_MAIN'' (ui_additional_log ''EXCHANGE_CHECK'' ''GOTO_MAIN'' s))]"

definition ui_page_os_popups :: "screen \<Rightarrow> rule" where
  "ui_page_os_popups scr s =
     (if opsi_reset_fleet_preparation_click s \<ge> 5
      then (Raise RequestHumanTakeover,
            logger CRITICAL ''Possible reason #2: Your fleets haven't satisfied the level restrictions in operation siren''
              (logger CRITICAL ''Possible reason #1: You haven't set any fleets in operation siren''
                (logger CRITICAL ''Failed to confirm OpSi fleets, too many click on RESET_FLEET_PREPARATION'' s)))
      else chain (ui_page_os_popups_rules scr) s)"

text \<open>
  The three preparation screens share one rule: the \<open>or\<close> of the source looks at them in
  order and stops at the first that is there.
\<close>

definition preparation_rule :: "screen \<Rightarrow> rule" where
  "preparation_rule scr s =
     (case appear scr ''MAP_PREPARATION'' (Offset 30 30) 3000 85 s of
        (True, s1) \<Rightarrow> (Return True, device_click ''MAP_PREPARATION_CANCEL'' s1)
      | (False, s1) \<Rightarrow>
     (case appear scr ''FLEET_PREPARATION'' (Offset 20 50) 3000 85 s1 of
        (True, s2) \<Rightarrow> (Return True, device_click ''MAP_PREPARATION_CANCEL'' s2)
      | (False, s2) \<Rightarrow>
     (case appear scr ''RAID_FLEET_PREPARATION'' (Offset 30 30) 3000 85 s2 of
        (True, s3) \<Rightarrow> (Return True, device_click ''MAP_PREPARATION_CANCEL'' s3)
      | (False, s3) \<Rightarrow> (Return False, s3))))"

text \<open>
  The \<open>WITHDRAW\<close> rule sleeps two seconds and takes a new screenshot before it clicks;
  when the button is gone on the new frame the rule declines, and the rules after it
  look at the new frame.
\<close>

definition withdraw_rule :: "screen \<Rightarrow> rule" where
  "withdraw_rule scr s =
     (case appear scr ''WITHDRAW'' (Offset 30 30) 3000 85 s of
        (True, s1) \<Rightarrow>
          (let s2 = device_screenshot (device_sleep 2000
                      (logger INFO ''WITHDRAW button found, wait until map loaded to prevent bugs in game client'' s1))
           in case appear_then_click scr ''WITHDRAW'' (Offset 30 30) 0 85 s2 of
                (True, s3) \<Rightarrow> (Return True, interval_reset scr ''WITHDRAW'' s3)
              | (False, s3) \<Rightarrow>
                  (Return False,
                   interval_reset scr ''WITHDRAW''
                     (logger WARNING ''WITHDRAW button does not exist anymore'' s3)))
      | (False, s1) \<Rightarrow> (Return False, s1))"

definition idle_rule :: "screen \<Rightarrow> button \<Rightarrow> rule" where
  "idle_rule scr b s =
     (if luma_matching (image scr s) b (Offset 5 5)
      then (Return True,
            set_interval_timer ''IDLE''
              (timer_reset (now scr s) (get_interval_timer ''IDLE'' 3000 s))
              (device_click ''REWARD_GOTO_MAIN'' (ui_additional_log b ''REWARD_GOTO_MAIN'' s)))
      else (Return False, s))"

definition handle_idle_page :: "screen \<Rightarrow> rule" where
  "handle_idle_page scr s =
     (if \<not> timer_reached (now scr s) (get_interval_timer ''IDLE'' 3000 s) then (Return False, s)
      else chain [idle_rule scr ''IDLE'', idle_rule scr ''IDLE_2'', idle_rule scr ''IDLE_3''] s)"

definition ui_additional_rules :: "screen \<Rightarrow> bool \<Rightarrow> rule list" where
  "ui_additional_rules scr get_ship =
     [ui_page_os_popups scr,
      handler_rule scr ''handle_popup_confirm:UI_ADDITIONAL'',
      handler_rule scr ''handle_urgent_commission'',
      ui_page_main_popups scr get_ship,
      handler_rule scr ''handle_story_skip'',
      appear_rule scr ''GAME_TIPS'' (Offset 30 30) 2000 85
        (\<lambda>s. device_click ''GOTO_MAIN'' (ui_additional_log ''GAME_TIPS'' ''GOTO_MAIN'' s)),
      appear_rule scr ''DORM_INFO'' (Offset 30 30) 3000 75 (device_click ''DORM_INFO''),
      click_rule scr ''DORM_FEED_CANCEL'' (Offset 30 30) 3000,
      click_rule scr ''DORM_TROPHY_CONFIRM'' (Offset 30 30) 3000,
      appear_rule scr ''MEOWFFICER_INFO'' (Offset 30 30) 3000 85
        (\<lambda>s. interval_reset scr ''GET_SHIP'' (device_click ''MEOWFFICER_INFO'' s)),
      appear_rule scr ''MEOWFFICER_BUY'' (Offset 30 30) 3000 85
        (\<lambda>s. interval_reset scr ''GET_SHIP''
               (device_click ''BACK_ARROW'' (ui_additional_log ''MEOWFFICER_BUY'' ''BACK_ARROW'' s))),
      preparation_rule scr,
      click_rule scr ''AUTO_SEARCH_MENU_EXIT'' (Offset 200 30) 3000,
      click_rule scr ''AUTO_SEARCH_REWARD'' (Offset 50 50) 3000,
      withdraw_rule scr,
      click_rule scr ''LOGIN_CHECK'' (Offset 30 30) 3000,
      click_rule scr ''MAINTENANCE_ANNOUNCE'' (Offset 30 30) 3000,
      appear_rule scr ''EXERCISE_PREPARATION'' NoOffset 3000 85
        (\<lambda>s. device_click ''GOTO_MAIN'' (ui_additional_log ''EXERCISE_PREPARATION'' ''GOTO_MAIN'' s)),
      click_rule scr ''DAL_DIFFICULTY_EXIT'' (Offset 20 20) 3000,
      handle_idle_page scr,
      appear_rule scr ''MAIN_GOTO_MEMORIES_WHITE'' NoOffset 3000 85
        (\<lambda>s. device_click ''MAIN_TAB_SWITCH_WHITE''
               (ui_additional_log ''MAIN_GOTO_MEMORIES_WHITE'' ''MAIN_TAB_SWITCH_WHITE'' s))]"

definition ui_additional :: "screen \<Rightarrow> bool \<Rightarrow> rule" where
  "ui_additional scr get_ship = chain (ui_additional_rules scr get_ship)"

text \<open>
  What one call of a rule may do: a rule that reports \<open>True\<close> has added exactly one
  action to the trace, a rule that declines or raises has added none, the only error
  raised is \<open>RequestHumanTakeover\<close>, and the call ends.
  The state reached when the rules of a list decline one after the other.
\<close>

definition one_action :: "rule \<Rightarrow> bool" where
  "one_action r =
     (\<forall>s. case r s of
            (Return True, s') \<Rightarrow> (\<exists>a. actions (trace s') = actions (trace s) @ [a])
          | (Return False, s') \<Rightarrow> actions (trace s') = actions (trace s)
          | (Raise e, s') \<Rightarrow> e = RequestHumanTakeover \<and> actions (trace s') = actions (trace s)
          | (Unfinished, s') \<Rightarrow> False)"

fun declined :: "rule list \<Rightarrow> state \<Rightarrow> state option" where
  "declined [] s = Some s"
| "declined (r # rs) s =
     (case r s of (Return False, s') \<Rightarrow> declined rs s' | _ \<Rightarrow> None)"

section \<open>Navigation (module/ui/ui.py)\<close>

text \<open>
  Modelled from the spec: \<open>Page.init_connection\<close>, \<open>Page.clear_connection\<close> and
  \<open>Page.iter_check_buttons\<close> (module.ui.page) are not among the sources. The spec has
  \<open>initConnection(destination)\<close> set a parent pointer on every page that lies on a path
  to the destination, breadth first over the declared links with ties broken by
  declaration order, and \<open>clearConnection()\<close> reset all parent pointers to null. One
  round visits the pages in order and gives each page not yet reached, that links to a
  page reached in an earlier round, that page as parent; rounds repeat until nothing is
  added, which takes at most as many rounds as there are pages.
\<close>

fun connect_round ::
  "string list \<Rightarrow> page list \<Rightarrow> string list \<times> (string \<rightharpoonup> string) \<Rightarrow>
   string list \<times> (string \<rightharpoonup> string)" where
  "connect_round visited [] acc = acc"
| "connect_round visited (pg # pgs) (new, par) =
     (if pname pg \<in> set new then connect_round visited pgs (new, par)
      else case find (\<lambda>l. fst l \<in> set visited) (links pg) of
             Some l \<Rightarrow> connect_round visited pgs (new @ [pname pg], par(pname pg \<mapsto> fst l))
           | None \<Rightarrow> connect_round visited pgs (new, par))"

fun connect :: "nat \<Rightarrow> page list \<Rightarrow> string list \<Rightarrow> (string \<rightharpoonup> string) \<Rightarrow> (string \<rightharpoonup> string)" where
  "connect 0 pages visited par = par"
| "connect (Suc k) pages visited par =
     (case connect_round visited pages (visited, par) of
        (new, par') \<Rightarrow> if length new = length visited then par' else connect k pages new par')"

definition clear_connection :: "state \<Rightarrow> state" where
  "clear_connection s = s\<lparr>parent := Map.empty\<rparr>"

definition init_connection :: "graph \<Rightarrow> page \<Rightarrow> state \<Rightarrow> state" where
  "init_connection g destination s =
     (clear_connection s)
       \<lparr>parent := connect (length (iter_pages g)) (iter_pages g) [pname destination] Map.empty\<rparr>"

definition iter_check_buttons :: "graph \<Rightarrow> button list" where
  "iter_check_buttons g = concat (map (\<lambda>pg. case check_button pg of None \<Rightarrow> [] | Some b \<Rightarrow> [b]) (iter_pages g))"

text \<open>
  \<open>ui_button_interval_reset\<close>: after a navigation click, the interval timers of the
  popups that the click may bring up are restarted.
\<close>

definition ui_button_interval_reset :: "screen \<Rightarrow> graph \<Rightarrow> button \<Rightarrow> state \<Rightarrow> state" where
  "ui_button_interval_reset scr g button s0 =
     (let s1 = (if button = ''MEOWFFICER_GOTO_DORMMENU'' then interval_reset scr ''GET_SHIP'' s0 else s0);
          s2 = (if button = ''DORMMENU_GOTO_DORM'' then interval_reset scr ''GET_SHIP'' s1 else s1);
          s3 = (if button = ''DORMMENU_GOTO_MEOWFFICER'' then interval_reset scr ''GET_SHIP'' s2 else s2);
          s4 = fold (\<lambda>switch_button s. if button = switch_button then interval_reset scr ''GET_SHIP'' s else s)
                 (map snd (links (page_main g))) s3;
          s5 = (if button \<in> set [''MAIN_GOTO_REWARD'', ''MAIN_GOTO_REWARD_WHITE'']
                then interval_reset scr ''GET_SHIP'' s4 else s4);
          s6 = (if button = ''REWARD_GOTO_TACTICAL''
                then interval_reset scr ''REWARD_GOTO_TACTICAL_WHITE'' s5 else s5);
          s7 = (if button = ''REWARD_GOTO_TACTICAL_WHITE''
                then interval_reset scr ''REWARD_GOTO_TACTICAL'' s6 else s6);
          s8 = (if button \<in> set [''MAIN_GOTO_CAMPAIGN'', ''MAIN_GOTO_CAMPAIGN_WHITE'']
                then interval_reset scr ''RAID_CHECK'' (interval_reset scr ''GET_SHIP'' s7) else s7);
          s9 = (if button = ''SHOP_GOTO_SUPPLY_PACK'' then interval_reset scr ''EXCHANGE_CHECK'' s8 else s8)
      in if button \<in> set [''RPG_GOTO_STAGE'', ''RPG_GOTO_STORY'', ''RPG_LEAVE_CITY'']
         then set_interval_timer ''GET_SHIP'' (timer_reset (now scr s9) (Timer 5000 0)) s9
         else s9)"

text \<open>
  The page scan of \<open>ui_goto\<close>: the first page, in order, that has a parent and a check
  button and whose check button is on the frame is left by the link to its parent.
  A parent that is not among the page's links raises the key error of the dictionary.
\<close>

fun goto_scan :: "screen \<Rightarrow> graph \<Rightarrow> offset \<Rightarrow> page list \<Rightarrow> state \<Rightarrow> bool outcome \<times> state" where
  "goto_scan scr g off [] s = (Return False, s)"
| "goto_scan scr g off (pg # pgs) s =
     (case (parent s (pname pg), check_button pg) of
        (Some q, Some cb) \<Rightarrow>
          (case appear scr cb off 5000 85 s of
             (True, s1) \<Rightarrow>
               (let s2 = logger INFO (''Page switch: '' @ pname pg @ '' -> '' @ q) s1
                in case map_of (links pg) q of
                     None \<Rightarrow> (Raise (KeyError q), s2)
                   | Some button \<Rightarrow>
                       (Return True, ui_button_interval_reset scr g button (device_click button s2)))
           | (False, s1) \<Rightarrow> goto_scan scr g off pgs s1)
      | _ \<Rightarrow> goto_scan scr g off pgs s)"

text \<open>
  The loop of \<open>ui_goto\<close>. \<open>GOTO_MAIN.clear_offset()\<close> forgets where the button was last
  matched; click coordinates are outside this model, so the call changes nothing here.
\<close>

fun ui_goto_loop ::
  "nat \<Rightarrow> screen \<Rightarrow> graph \<Rightarrow> page \<Rightarrow> bool \<Rightarrow> offset \<Rightarrow> bool \<Rightarrow> state \<Rightarrow> unit outcome \<times> state" where
  "ui_goto_loop 0 scr g destination get_ship off skip s = (Unfinished, s)"
| "ui_goto_loop (Suc n) scr g destination get_ship off skip s =
     (case ui_page_appear scr g destination off 0 (if skip then s else device_screenshot s) of
        (Return True, s1) \<Rightarrow> (Return (), logger INFO (''Page arrive: '' @ pname destination) s1)
      | (Return False, s1) \<Rightarrow>
          (case goto_scan scr g off (iter_pages g) s1 of
             (Return True, s2) \<Rightarrow> ui_goto_loop n scr g destination get_ship off False s2
           | (Return False, s2) \<Rightarrow>
               (case ui_additional scr get_ship s2 of
                  (Return h, s3) \<Rightarrow> ui_goto_loop n scr g destination get_ship off False s3
                | (Raise e, s3) \<Rightarrow> (Raise e, s3)
                | (Unfinished, s3) \<Rightarrow> (Unfinished, s3))
           | (Raise e, s2) \<Rightarrow> (Raise e, s2)
           | (Unfinished, s2) \<Rightarrow> (Unfinished, s2))
      | (Raise e, s1) \<Rightarrow> (Raise e, s1)
      | (Unfinished, s1) \<Rightarrow> (Unfinished, s1))"

definition ui_goto ::
  "nat \<Rightarrow> screen \<Rightarrow> graph \<Rightarrow> page \<Rightarrow> bool \<Rightarrow> offset \<Rightarrow> bool \<Rightarrow> state \<Rightarrow> unit outcome \<times> state" where
  "ui_goto n scr g destination get_ship off skip_first_screenshot s =
     (case ui_goto_loop n scr g destination get_ship off skip_first_screenshot
             (logger HR (''UI goto '' @ pname destination)
                (fold interval_clear (iter_check_buttons g) (init_connection g destination s))) of
        (Return u, s') \<Rightarrow> (Return (), clear_connection s')
      | (Raise e, s') \<Rightarrow> (Raise e, s')
      | (Unfinished, s') \<Rightarrow> (Unfinished, s'))"

text \<open>
  \<open>ui_get_current_page\<close>. The configuration values it prints are a parameter. The two
  \<open>run_once\<close> helpers are flags of the call.
\<close>

record config =
  Emulator_ScreenshotMethod :: string
  Emulator_ControlMethod :: string
  SERVER :: string

record page_locals =
  orientation_timer :: timer
  timeout :: timer
  app_checked :: bool
  minicap_checked :: bool

fun find_page :: "screen \<Rightarrow> graph \<Rightarrow> page list \<Rightarrow> state \<Rightarrow> page option outcome \<times> state" where
  "find_page scr g [] s = (Return None, s)"
| "find_page scr g (pg # pgs) s =
     (if check_button pg = None then find_page scr g pgs s
      else case ui_page_appear scr g pg (Offset 30 30) 0 s of
             (Return True, s1) \<Rightarrow>
               (Return (Some pg), (logger ATTR (''UI: '' @ pname pg) s1)\<lparr>ui_current := Some (pname pg)\<rparr>)
           | (Return False, s1) \<Rightarrow> find_page scr g pgs s1
           | (Raise e, s1) \<Rightarrow> (Raise e, s1)
           | (Unfinished, s1) \<Rightarrow> (Unfinished, s1))"

text \<open>
  The print of a Python list in an f-string: the members, here already as their
  \<open>repr\<close>, separated by a comma and a blank, between brackets.
\<close>

definition str_list :: "string list \<Rightarrow> string" where
  "str_list xs = ''['' @ concat (map (\<lambda>x. x @ '', '') (butlast xs)) @ concat (map id (drop (length xs - 1) xs)) @ '']''"

definition unknown_page_dump :: "graph \<Rightarrow> config \<Rightarrow> state \<Rightarrow> state" where
  "unknown_page_dump g cfg s =
     logger CRITICAL ''Please switch to a supported page before starting Alas''
       (logger WARNING
          (''Supported page: Any page with a '' @ [CHR 0x22] @ ''HOME'' @ [CHR 0x22]
             @ '' button on the upper-right'')
         (logger WARNING (''Supported page: '' @ str_list (map (py_repr \<circ> pname) (iter_pages g)))
           (logger WARNING ''Starting from current page is not supported''
             (logger ATTR (''SERVER: '' @ SERVER cfg)
               (logger ATTR (''EMULATOR__CONTROL_METHOD: '' @ Emulator_ControlMethod cfg)
                 (logger ATTR (''EMULATOR__SCREENSHOT_METHOD: '' @ Emulator_ScreenshotMethod cfg)
                   (logger WARNING ''Unknown ui page'' s)))))))"

text \<open>
  What the loop body does once no page was recognised: the three home buttons, the
  interrupt chain (each resets the timeout when it handled something), then the checks
  of the process, of minicap and of the orientation.
\<close>

definition unknown_page_step ::
  "screen \<Rightarrow> config \<Rightarrow> page_locals \<Rightarrow> state \<Rightarrow> page_locals outcome \<times> state" where
  "unknown_page_step scr cfg L s0 =
     (let s = logger INFO ''Unknown ui page'' s0 in
      case appear_then_click scr ''GOTO_MAIN'' (Offset 30 30) 2000 85 s of
        (True, s1) \<Rightarrow> (Return (L\<lparr>timeout := timer_reset (now scr s1) (timeout L)\<rparr>), s1)
      | (False, s1) \<Rightarrow>
     (case appear_then_click scr ''GOTO_MAIN_WHITE'' (Offset 30 30) 2000 85 s1 of
        (True, s2) \<Rightarrow> (Return (L\<lparr>timeout := timer_reset (now scr s2) (timeout L)\<rparr>), s2)
      | (False, s2) \<Rightarrow>
     (case appear_then_click scr ''RPG_HOME'' (Offset 30 30) 2000 85 s2 of
        (True, s3) \<Rightarrow> (Return (L\<lparr>timeout := timer_reset (now scr s3) (timeout L)\<rparr>), s3)
      | (False, s3) \<Rightarrow>
     (case ui_additional scr True s3 of
        (Return True, s4) \<Rightarrow> (Return (L\<lparr>timeout := timer_reset (now scr s4) (timeout L)\<rparr>), s4)
      | (Raise e, s4) \<Rightarrow> (Raise e, s4)
      | (Unfinished, s4) \<Rightarrow> (Unfinished, s4)
      | (Return False, s4) \<Rightarrow>
          (if \<not> app_checked L \<and> \<not> app_is_running (image scr s4)
           then (Raise GameNotRunningError, s4)
           else let L1 = L\<lparr>app_checked := True\<rparr>;
                    s5 = (if \<not> minicap_checked L1 \<and> Emulator_ControlMethod cfg = ''uiautomator2''
                          then emit UninstallMinicap s4 else s4);
                    L2 = L1\<lparr>minicap_checked := True\<rparr>
                in if timer_reached (now scr s5) (orientation_timer L2)
                   then (Return (L2\<lparr>orientation_timer := timer_reset (now scr s5) (orientation_timer L2)\<rparr>),
                         emit GetOrientation s5)
                   else (Return L2, s5))))))"

fun ui_get_current_page_loop ::
  "nat \<Rightarrow> screen \<Rightarrow> graph \<Rightarrow> config \<Rightarrow> bool \<Rightarrow> page_locals \<Rightarrow> state \<Rightarrow> page outcome \<times> state" where
  "ui_get_current_page_loop 0 scr g cfg skip L s = (Unfinished, s)"
| "ui_get_current_page_loop (Suc n) scr g cfg skip L s =
     (let s0 = (if skip then (if \<not> has_cached_image s then device_screenshot s else s)
                else device_screenshot s)
      in if timer_reached (now scr s0) (timeout L)
         then (Raise GamePageUnknownError, unknown_page_dump g cfg s0)
         else case find_page scr g (iter_pages g) s0 of
                (Return (Some pg), s1) \<Rightarrow> (Return pg, s1)
              | (Return None, s1) \<Rightarrow>
                  (case unknown_page_step scr cfg L s1 of
                     (Return L', s2) \<Rightarrow> ui_get_current_page_loop n scr g cfg False L' s2
                   | (Raise e, s2) \<Rightarrow> (Raise e, s2)
                   | (Unfinished, s2) \<Rightarrow> (Unfinished, s2))
              | (Raise e, s1) \<Rightarrow> (Raise e, s1)
              | (Unfinished, s1) \<Rightarrow> (Unfinished, s1))"

definition page_locals_init :: "nat \<Rightarrow> page_locals" where
  "page_locals_init t =
     \<lparr>orientation_timer = Timer 5000 0, timeout = timer_start t (Timer 10000 20),
      app_checked = False, minicap_checked = False\<rparr>"

definition ui_get_current_page ::
  "nat \<Rightarrow> screen \<Rightarrow> graph \<Rightarrow> config \<Rightarrow> bool \<Rightarrow> state \<Rightarrow> page outcome \<times> state" where
  "ui_get_current_page n scr g cfg skip_first_screenshot s =
     ui_get_current_page_loop n scr g cfg skip_first_screenshot (page_locals_init (now scr s))
       (logger INFO ''UI get current page'' s)"

definition ui_ensure ::
  "nat \<Rightarrow> screen \<Rightarrow> graph \<Rightarrow> config \<Rightarrow> page \<Rightarrow> bool \<Rightarrow> state \<Rightarrow> bool outcome \<times> state" where
  "ui_ensure n scr g cfg destination skip_first_screenshot s =
     (case ui_get_current_page n scr g cfg skip_first_screenshot (logger HR ''UI ensure'' s) of
        (Return pg, s1) \<Rightarrow>
          if ui_current s1 = Some (pname destination)
          then (Return False, logger INFO (''Already at '' @ pname destination) s1)
          else (case ui_goto n scr g destination True (Offset 30 30) True
                       (logger INFO (''Goto '' @ pname destination) s1) of
                  (Return u, s2) \<Rightarrow> (Return True, s2)
                | (Raise e, s2) \<Rightarrow> (Raise e, s2)
                | (Unfinished, s2) \<Rightarrow> (Unfinished, s2))
      | (Raise e, s1) \<Rightarrow> (Raise e, s1)
      | (Unfinished, s1) \<Rightarrow> (Unfinished, s1))"

section \<open>Click and confirm (module/ui/ui.py)\<close>














text \<open>
  Bookkeeping for the click counters of \<open>enter_map\<close>: how many more clicks of a button
  the three counters still allow, and a bound on all three counters.
\<close>

definition click_budget ::
  "string \<Rightarrow> button \<Rightarrow> button option \<Rightarrow> button \<Rightarrow> enter_locals \<Rightarrow> button \<Rightarrow> nat" where
  "click_budget event button bd fp L b =
     (if b = button then 6 - campaign_click L else 0)
     + (if Some b = bd then 6 - campaign_difficulty_click L else 0)
     + (if b = fp \<and> event \<noteq> ''coalition_20251120'' then 6 - fleet_click L else 0)"

definition counters_le :: "nat \<Rightarrow> enter_locals \<Rightarrow> bool" where
  "counters_le k L = (campaign_click L \<le> k \<and> campaign_difficulty_click L \<le> k \<and> fleet_click L \<le> k)"

section \<open>Scenarios\<close>

text \<open>
  Concrete screens and a small page graph, for running the functions on: a frame that
  shows nothing, a frame that shows the listed assets under every tolerance, a screen
  that shows the same assets on every frame with a fixed time between frames, a screen
  that shows one asset on its first frame only, a screen that shows one asset on every
  frame but the first, and the state of a freshly started bot
  that holds a first screenshot.
\<close>

definition blank_frame :: "nat \<Rightarrow> frame" where
  "blank_frame t =
     \<lparr>ftime = t, matching = (\<lambda>b off sim. False), luma_matching = (\<lambda>b off. False),
      handler_fires = (\<lambda>h. False), app_is_running = True\<rparr>"

definition shows_nothing :: "screen \<Rightarrow> bool" where
  "shows_nothing scr = (\<forall>i. scr i = blank_frame (ftime (scr i)))"

definition showing :: "button list \<Rightarrow> nat \<Rightarrow> frame" where
  "showing bs t = (blank_frame t)\<lparr>matching := (\<lambda>b off sim. b \<in> set bs)\<rparr>"

definition steady_screen :: "button list \<Rightarrow> nat \<Rightarrow> screen" where
  "steady_screen bs dt = (\<lambda>i. showing bs (i * dt))"

definition flash_screen :: "button \<Rightarrow> nat \<Rightarrow> screen" where
  "flash_screen b dt = (\<lambda>i. if i = 0 then showing [b] 0 else blank_frame (i * dt))"

definition late_screen :: "button \<Rightarrow> nat \<Rightarrow> screen" where
  "late_screen b dt = (\<lambda>i. if i = 0 then blank_frame 0 else showing [b] (i * dt))"

definition start_state :: state where
  "start_state =
     \<lparr>cur = 0, has_cached_image = True, interval_timer = Map.empty, parent = Map.empty,
      opsi_reset_fleet_preparation_click = 0, ui_current = None, trace = []\<rparr>"

definition demo_main :: page where
  "demo_main = \<lparr>pname = ''page_main'', check_button = Some ''MAIN_GOTO_FLEET'',
                 links = [(''page_event'', ''MAIN_GOTO_EVENT'')]\<rparr>"

definition demo_main_white :: page where
  "demo_main_white = \<lparr>pname = ''page_main_white'', check_button = Some ''MAIN_GOTO_FLEET_WHITE'',
                       links = [(''page_event'', ''MAIN_GOTO_EVENT_WHITE'')]\<rparr>"

definition demo_event :: page where
  "demo_event = \<lparr>pname = ''page_event'', check_button = Some ''EVENT_CHECK'',
                  links = [(''page_main'', ''GOTO_MAIN''), (''page_coalition'', ''EVENT_GOTO_COALITION'')]\<rparr>"

definition demo_coalition :: page where
  "demo_coalition = \<lparr>pname = ''page_coalition'', check_button = Some ''COALITION_CHECK'',
                      links = [(''page_event'', ''BACK_ARROW'')]\<rparr>"

definition demo_graph :: graph where
  "demo_graph =
     \<lparr>iter_pages = [demo_main, demo_main_white, demo_event, demo_coalition],
      page_main = demo_main, page_main_white = demo_main_white, page_coalition = demo_coalition\<rparr>"

definition demo_config :: config where
  "demo_config =
     \<lparr>Emulator_ScreenshotMethod = ''DroidCast'', Emulator_ControlMethod = ''MaaTouch'', SERVER = ''cn''\<rparr>"

section \<open>The click counters of \<open>enter_map\<close>\<close>


lemma clicks_of_emit [simp]:
  "clicks_of b (trace (emit e s)) = (if e = Click b then Suc (clicks_of b (trace s)) else clicks_of b (trace s))"
  by (simp add: clicks_of_def emit_def)

lemma cur_emit [simp]: "cur (emit e s) = cur s"
  by (simp add: emit_def)

lemma trace_appear [simp]: "trace (snd (appear scr b off i sim s)) = trace s"
  by (simp add: appear_def set_interval_timer_def)

lemma cur_appear [simp]: "cur (snd (appear scr b off i sim s)) = cur s"
  by (simp add: appear_def set_interval_timer_def)

lemma appear_zero [simp]: "appear scr b off 0 sim s = (matching (image scr s) b off sim, s)"
  by (simp add: appear_def)

lemma clicks_of_handler [simp]: "clicks_of b (trace (snd (handler scr h s))) = clicks_of b (trace s)"
  by (simp add: handler_def)

lemma guards_clicks:
  "enter_map_guards scr button bd L s = (r, s') \<Longrightarrow> clicks_of b (trace s') = clicks_of b (trace s)"
  by (auto simp: enter_map_guards_def logger_def split: if_splits)

lemma guards_Return:
  "enter_map_guards scr button bd L s = (Return u, s') \<Longrightarrow>
     s' = s \<and> campaign_click L \<le> 5 \<and> campaign_difficulty_click L \<le> 5 \<and> fleet_click L \<le> 5"
  by (auto simp: enter_map_guards_def split: if_splits)

lemma guards_not_Unfinished:
  "enter_map_guards scr button bd L s \<noteq> (Unfinished, s')"
  by (auto simp: enter_map_guards_def split: if_splits)

lemma popups_clicks:
  "enter_map_popups scr L s = (r, s') \<Longrightarrow> clicks_of b (trace s') = clicks_of b (trace s)"
  by (auto simp: enter_map_popups_def handler_def split: if_splits prod.splits bool.splits)

lemma popups_counters:
  "enter_map_popups scr L s = (Some L', s') \<Longrightarrow>
     campaign_click L' = campaign_click L \<and> campaign_difficulty_click L' = campaign_difficulty_click L
     \<and> fleet_click L' = fleet_click L"
  by (auto simp: enter_map_popups_def handler_def split: if_splits prod.splits bool.splits)

lemma check_appear_zero:
  "check_appear scr cb off 0 s = (r, s') \<Longrightarrow> s' = s"
  by (auto simp: check_appear_def lift_def split: option.splits)

lemma ui_page_appear_zero:
  "ui_page_appear scr g pg off 0 s = (r, s') \<Longrightarrow> s' = s"
  by (auto simp: ui_page_appear_def andthen_def ret_def split: if_splits prod.splits outcome.splits
           dest: check_appear_zero)

lemma hfp_20251120:
  "handle_fleet_preparation ''coalition_20251120'' stage mode s =
     (Raise ScriptError, logger ERROR ''FLEET_SWITCH is not defined in event coalition_20251120'' s)"
  by (simp add: handle_fleet_preparation_def coalition_ensure_fleet_def andthen_def Let_def)

lemma hfp_clicks:
  "handle_fleet_preparation event stage mode s = (r, s') \<Longrightarrow>
     clicks_of b (trace s') = clicks_of b (trace s) \<and> cur s' = cur s"
  by (auto simp: handle_fleet_preparation_def coalition_ensure_fleet_def andthen_def Let_def ret_def
        switch_set_def logger_def split: if_splits option.splits prod.splits outcome.splits)

lemma fleet_step:
  assumes "enter_map_fleet scr event stage mode fp L s = (r, s')" "counters_le 5 L"
  shows "clicks_of b (trace s) \<le> clicks_of b (trace s') \<and>
         (case r of
            Return (Continue L') \<Rightarrow> counters_le 6 L' \<and>
              clicks_of b (trace s') + click_budget event button bd fp L' b
                \<le> clicks_of b (trace s) + click_budget event button bd fp L b
          | _ \<Rightarrow> clicks_of b (trace s') = clicks_of b (trace s))"
proof (cases "event = ''coalition_20251120''")
  case True
  with assms show ?thesis
    by (auto simp: enter_map_fleet_def andthen_def hfp_20251120 logger_def counters_le_def
          split: if_splits)
next
  case False
  with assms show ?thesis
    by (auto simp: enter_map_fleet_def andthen_def device_click_def counters_le_def click_budget_def
          split: if_splits prod.splits outcome.splits dest!: hfp_clicks [where b = b])
qed


lemma difficulty_step:
  assumes "enter_map_difficulty scr event bd L s = (r, s')" "counters_le 5 L"
  shows "clicks_of b (trace s) \<le> clicks_of b (trace s') \<and> cur s' = cur s \<and>
         (case r of
            Some L' \<Rightarrow> counters_le 6 L' \<and>
              clicks_of b (trace s') + click_budget event button bd fp L' b
                \<le> clicks_of b (trace s) + click_budget event button bd fp L b
          | None \<Rightarrow> s' = s)"
  using assms
  by (auto simp: enter_map_difficulty_def device_click_def counters_le_def click_budget_def
        split: if_splits)

lemma clicks_step:
  assumes "enter_map_clicks scr g event stage mode button bd fp L s = (r, s')" "counters_le 5 L"
  shows "clicks_of b (trace s) \<le> clicks_of b (trace s') \<and>
         (case r of
            Return (Continue L') \<Rightarrow> counters_le 6 L' \<and>
              clicks_of b (trace s') + click_budget event button bd fp L' b
                \<le> clicks_of b (trace s) + click_budget event button bd fp L b
          | _ \<Rightarrow> clicks_of b (trace s') = clicks_of b (trace s))"
proof -
  obtain c s1 where c: "(if timer_reached (now scr s) (campaign_timer L) then in_coalition scr g else ret False) s = (c, s1)"
    by (cases "(if timer_reached (now scr s) (campaign_timer L) then in_coalition scr g else ret False) s")
  then have s1: "s1 = s"
    by (auto simp: in_coalition_def ret_def split: if_splits dest: ui_page_appear_zero)
  show ?thesis
  proof (cases c)
    case (Return x)
    show ?thesis
    proof (cases x)
      case True
      with Return c s1 assms show ?thesis
        by (auto simp: enter_map_clicks_def andthen_def device_click_def counters_le_def click_budget_def)
    next
      case False
      obtain d s2 where d: "enter_map_difficulty scr event bd L s = (d, s2)"
        by (cases "enter_map_difficulty scr event bd L s")
      note ds = difficulty_step [OF d assms(2), of b button fp]
      show ?thesis
      proof (cases d)
        case None
        with ds have "s2 = s" by simp
        with None d False Return c s1 assms(1)
        have "enter_map_fleet scr event stage mode fp L s = (r, s')"
          by (simp add: enter_map_clicks_def andthen_def)
        from fleet_step [OF this assms(2)] show ?thesis .
      next
        case (Some L')
        with d False Return c s1 assms(1) have "r = Return (Continue L')" "s' = s2"
          by (simp_all add: enter_map_clicks_def andthen_def)
        with ds Some show ?thesis by simp
      qed
    qed
  next
    case (Raise e)
    with c s1 assms show ?thesis by (auto simp: enter_map_clicks_def andthen_def)
  next
    case Unfinished
    with c s1 assms show ?thesis by (auto simp: enter_map_clicks_def andthen_def)
  qed
qed

lemma tick_step:
  assumes "enter_map_tick scr g event stage mode button bd fp L s = (r, s')"
  shows "clicks_of b (trace s) \<le> clicks_of b (trace s') \<and>
         (case r of
            Return (Continue L') \<Rightarrow> counters_le 6 L' \<and>
              clicks_of b (trace s') + click_budget event button bd fp L' b
                \<le> clicks_of b (trace s) + click_budget event button bd fp L b
          | _ \<Rightarrow> clicks_of b (trace s') = clicks_of b (trace s))"
proof -
  obtain q s1 where q: "enter_map_guards scr button bd L s = (q, s1)"
    by (cases "enter_map_guards scr button bd L s")
  show ?thesis
  proof (cases q)
    case (Return u)
    with q guards_Return have s1: "s1 = s" and le: "counters_le 5 L"
      by (auto simp: counters_le_def)
    show ?thesis
    proof (cases "fst (appear scr ''BATTLE_PREPARATION'' (Offset 20 20) 0 85 s)")
      case True
      with Return q s1 assms show ?thesis by (auto simp: enter_map_tick_def andthen_def)
    next
      case False
      obtain p s2 where p: "enter_map_popups scr L s = (p, s2)"
        by (cases "enter_map_popups scr L s")
      note pc = popups_clicks [OF p, of b]
      show ?thesis
      proof (cases p)
        case None
        with p False Return q s1 assms
        have "enter_map_clicks scr g event stage mode button bd fp L s2 = (r, s')"
          by (auto simp: enter_map_tick_def andthen_def)
        from clicks_step [OF this le, of b] pc show ?thesis
          by (auto split: outcome.splits ctl.splits)
      next
        case (Some L')
        with p False Return q s1 assms have r: "r = Return (Continue L')" "s' = s2"
          by (auto simp: enter_map_tick_def andthen_def)
        from popups_counters [OF p [unfolded Some]] le
        have "counters_le 6 L'" "click_budget event button bd fp L' b = click_budget event button bd fp L b"
          by (auto simp: counters_le_def click_budget_def)
        with r pc show ?thesis by simp
      qed
    qed
  next
    case (Raise e)
    with q assms guards_clicks [OF q, of b] show ?thesis
      by (auto simp: enter_map_tick_def andthen_def)
  next
    case Unfinished
    with q guards_not_Unfinished show ?thesis by blast
  qed
qed

lemma clicks_of_screenshot [simp]: "clicks_of b (trace (device_screenshot s)) = clicks_of b (trace s)"
  by (simp add: device_screenshot_def)

lemma loop_clicks:
  "clicks_of b (trace s) \<le> clicks_of b (trace (snd (enter_map_loop n scr g event stage mode button bd fp skip L s)))
   \<and> clicks_of b (trace (snd (enter_map_loop n scr g event stage mode button bd fp skip L s)))
       \<le> clicks_of b (trace s) + click_budget event button bd fp L b"
proof (induction n arbitrary: skip L s)
  case 0
  show ?case by simp
next
  case (Suc n)
  define s0 where "s0 = (if skip then s else device_screenshot s)"
  obtain r s' where t: "enter_map_tick scr g event stage mode button bd fp L s0 = (r, s')"
    by (cases "enter_map_tick scr g event stage mode button bd fp L s0")
  have s0: "clicks_of b (trace s0) = clicks_of b (trace s)" by (simp add: s0_def)
  note ts = tick_step [OF t, of b]
  show ?case
  proof (cases r)
    case (Return c)
    show ?thesis
    proof (cases c)
      case Break
      with Return t ts s0 show ?thesis by (simp add: s0_def [symmetric])
    next
      case (Continue L')
      with Return t have
        "enter_map_loop (Suc n) scr g event stage mode button bd fp skip L s
           = enter_map_loop n scr g event stage mode button bd fp False L' s'"
        by (simp add: s0_def [symmetric])
      with Suc.IH [where skip = False and L = L' and s = s'] ts s0 Return Continue show ?thesis by simp
    qed
  next
    case (Raise e)
    with t ts s0 show ?thesis by (simp add: s0_def [symmetric])
  next
    case Unfinished
    with t ts s0 show ?thesis by (simp add: s0_def [symmetric])
  qed
qed


lemma dic_lookup_trace:
  "dic_lookup dic event stage s = (r, s') \<Longrightarrow>
     clicks_of b (trace s') = clicks_of b (trace s) \<and> actions (trace s') = actions (trace s) \<and> cur s' = cur s"
  by (auto simp: dic_lookup_def Let_def logger_def emit_def actions_def clicks_of_def split: option.splits)

lemma entrance_20251120:
  "coalition_get_entrance ''coalition_20251120'' stage s = (Return b, s') \<Longrightarrow>
     s' = s \<and> b \<in> set [''DAL_AREA1'', ''DAL_AREA2'', ''DAL_AREA3'', ''DAL_AREA4'', ''DAL_AREA5'', ''DAL_AREA6'']
     \<and> (\<exists>d. coalition_20251120_get_entrance_difficulty ''coalition_20251120'' stage s = (Return d, s))"
  by (auto simp: coalition_get_entrance_def coalition_20251120_get_entrance_difficulty_def
        dic_lookup_def Let_def coalition_get_entrance_dic_def
        coalition_20251120_get_entrance_difficulty_dic_def split: if_splits)

lemma entrance_cases:
  "coalition_get_entrance event stage s = (Raise CampaignNameError, logger ERROR (''('' @ py_repr event @ '', '' @ py_repr (lower stage) @ '')'') s)
   \<or> (\<exists>b. coalition_get_entrance event stage s = (Return b, s))"
  by (auto simp: coalition_get_entrance_def dic_lookup_def Let_def split: option.splits)

lemma buttons_20251120:
  "(\<exists>b\<in>set [''DAL_AREA1'', ''DAL_AREA2'', ''DAL_AREA3'', ''DAL_AREA4'', ''DAL_AREA5'', ''DAL_AREA6''].
      enter_map_buttons inherited ''coalition_20251120'' stage s = (Return (b, None, ''DAL_FLEET_PREPARATION''), s))
   \<or> enter_map_buttons inherited ''coalition_20251120'' stage s
        = (Raise CampaignNameError, logger ERROR (''('' @ py_repr ''coalition_20251120'' @ '', '' @ py_repr (lower stage) @ '')'') s)"
proof -
  from entrance_cases [of "''coalition_20251120''" stage s]
  show ?thesis
  proof
    assume "coalition_get_entrance ''coalition_20251120'' stage s =
      (Raise CampaignNameError, logger ERROR (''('' @ py_repr ''coalition_20251120'' @ '', '' @ py_repr (lower stage) @ '')'') s)"
    then show ?thesis by (simp add: enter_map_buttons_def andthen_def)
  next
    assume "\<exists>b. coalition_get_entrance ''coalition_20251120'' stage s = (Return b, s)"
    then obtain b where b: "coalition_get_entrance ''coalition_20251120'' stage s = (Return b, s)" ..
    from entrance_20251120 [OF b] obtain d where
      d: "coalition_20251120_get_entrance_difficulty ''coalition_20251120'' stage s = (Return d, s)"
      and bs: "b \<in> set [''DAL_AREA1'', ''DAL_AREA2'', ''DAL_AREA3'', ''DAL_AREA4'', ''DAL_AREA5'', ''DAL_AREA6'']"
      by blast
    have "enter_map_buttons inherited ''coalition_20251120'' stage s = (Return (b, None, ''DAL_FLEET_PREPARATION''), s)"
      by (simp add: enter_map_buttons_def andthen_def b d ret_def coalition_get_fleet_preparation_def)
    with bs show ?thesis by blast
  qed
qed

text \<open>
  C8. For the event \<open>coalition_20251120\<close>, whatever the stage and the mode: the
  initialisation of \<open>enter_map\<close> either raises \<open>CampaignNameError\<close> or leaves the
  difficulty button \<open>None\<close> (the second branch overwrites what the first one looked up),
  the difficulty branch of the loop body then never clicks, and a run of \<open>enter_map\<close>
  of any length adds no click of \<open>DAL_NORMAL\<close> or \<open>DAL_HARD\<close> to the trace.
\<close>

theorem enter_map_20251120_difficulty_never_clicked:
  "((\<exists>b. enter_map_buttons inherited ''coalition_20251120'' stage s = (Return (b, None, ''DAL_FLEET_PREPARATION''), s))
    \<or> fst (enter_map_buttons inherited ''coalition_20251120'' stage s) = Raise CampaignNameError)
   \<and> enter_map_difficulty scr ''coalition_20251120'' None L s = (None, s)
   \<and> clicks_of ''DAL_NORMAL'' (trace (snd (enter_map n scr g inherited ''coalition_20251120'' stage mode skip s)))
       = clicks_of ''DAL_NORMAL'' (trace s)
   \<and> clicks_of ''DAL_HARD'' (trace (snd (enter_map n scr g inherited ''coalition_20251120'' stage mode skip s)))
       = clicks_of ''DAL_HARD'' (trace s)"
proof -
  have A: "clicks_of d (trace (snd (enter_map n scr g inherited ''coalition_20251120'' stage mode skip s)))
       = clicks_of d (trace s)" if "d = ''DAL_NORMAL'' \<or> d = ''DAL_HARD''" for d
    using buttons_20251120 [of inherited stage s]
  proof
    assume "\<exists>b\<in>set [''DAL_AREA1'', ''DAL_AREA2'', ''DAL_AREA3'', ''DAL_AREA4'', ''DAL_AREA5'', ''DAL_AREA6''].
      enter_map_buttons inherited ''coalition_20251120'' stage s = (Return (b, None, ''DAL_FLEET_PREPARATION''), s)"
    then obtain b where bs: "b \<in> set [''DAL_AREA1'', ''DAL_AREA2'', ''DAL_AREA3'', ''DAL_AREA4'', ''DAL_AREA5'', ''DAL_AREA6'']"
      and e: "enter_map_buttons inherited ''coalition_20251120'' stage s = (Return (b, None, ''DAL_FLEET_PREPARATION''), s)"
      by blast
    from bs that have "click_budget ''coalition_20251120'' b None ''DAL_FLEET_PREPARATION'' enter_locals_init d = 0"
      by (auto simp: click_budget_def)
    with loop_clicks [of d s n scr g "''coalition_20251120''" stage mode b None "''DAL_FLEET_PREPARATION''" skip enter_locals_init]
    show ?thesis by (simp add: enter_map_def andthen_def e)
  next
    assume "enter_map_buttons inherited ''coalition_20251120'' stage s
        = (Raise CampaignNameError, logger ERROR (''('' @ py_repr ''coalition_20251120'' @ '', '' @ py_repr (lower stage) @ '')'') s)"
    then show ?thesis by (simp add: enter_map_def andthen_def logger_def)
  qed
  have B: "enter_map_difficulty scr ''coalition_20251120'' None L s = (None, s)"
    by (simp add: enter_map_difficulty_def)
  from buttons_20251120 [of inherited stage s]
  have C: "(\<exists>b. enter_map_buttons inherited ''coalition_20251120'' stage s = (Return (b, None, ''DAL_FLEET_PREPARATION''), s))
    \<or> fst (enter_map_buttons inherited ''coalition_20251120'' stage s) = Raise CampaignNameError"
    by auto
  from A B C show ?thesis by simp
qed

lemmas scenario_defs = steady_screen_def flash_screen_def late_screen_def showing_def blank_frame_def start_state_def
  demo_graph_def demo_main_def demo_main_white_def demo_event_def demo_coalition_def

lemmas base_defs = image_def now_def emit_def logger_def device_click_def device_sleep_def
  device_screenshot_def timer_reached_def timer_reset_def timer_start_def timer_clear_def Timer_def
  get_interval_timer_def set_interval_timer_def appear_def appear_then_click_def
  interval_reset_def interval_clear_def handler_def andthen_def ret_def raise_def lift_def
  check_appear_def ui_page_appear_def is_in_main_def

lemmas coalition_defs = lower_def lower_char_def Switch_def add_state_def switch_set_def
  in_coalition_def in_coalition_20251120_difficulty_selection_def
  in_coalition_20260122_difficulty_selection_def coalition_ensure_fleet_def
  coalition_get_entrance_dic_def dic_lookup_def coalition_get_entrance_def
  coalition_20251120_get_entrance_difficulty_dic_def coalition_20251120_get_entrance_difficulty_def
  coalition_get_fleet_preparation_def handle_fleet_preparation_def getattr_difficulty_def
  enter_map_buttons_def enter_locals_init_def str_option_def enter_map_guards_def
  enter_map_popups_def enter_map_fleet_def enter_map_difficulty_def enter_map_clicks_def
  enter_map_tick_def enter_map_def

text \<open>
  C9. For the event \<open>coalition_20251120\<close>, whatever the stage and the mode,
  \<open>handle_fleet_preparation\<close> raises \<open>ScriptError\<close>: no early return applies, and
  \<open>coalition_ensure_fleet\<close> has no fleet switch for the event. So the fleet branch of
  \<open>enter_map\<close> raises \<open>ScriptError\<close> on the tick that finds the fleet preparation
  button with its timer reached, and no run of \<open>enter_map\<close> for the event ever clicks
  \<open>DAL_FLEET_PREPARATION\<close>.
\<close>

theorem fleet_preparation_20251120_raises:
  "handle_fleet_preparation ''coalition_20251120'' stage mode s
     = (Raise ScriptError, logger ERROR ''FLEET_SWITCH is not defined in event coalition_20251120'' s)
   \<and> (timer_reached (now scr s) (fleet_timer L) \<and> matching (image scr s) fp (Offset 20 50) 85
        \<longrightarrow> enter_map_fleet scr ''coalition_20251120'' stage mode fp L s
             = (Raise ScriptError, logger ERROR ''FLEET_SWITCH is not defined in event coalition_20251120'' s))
   \<and> clicks_of ''DAL_FLEET_PREPARATION''
        (trace (snd (enter_map n scr g inherited ''coalition_20251120'' stage mode skip s)))
       = clicks_of ''DAL_FLEET_PREPARATION'' (trace s)"
proof -
  have A: "clicks_of ''DAL_FLEET_PREPARATION''
        (trace (snd (enter_map n scr g inherited ''coalition_20251120'' stage mode skip s)))
       = clicks_of ''DAL_FLEET_PREPARATION'' (trace s)"
    using buttons_20251120 [of inherited stage s]
  proof
    assume "\<exists>b\<in>set [''DAL_AREA1'', ''DAL_AREA2'', ''DAL_AREA3'', ''DAL_AREA4'', ''DAL_AREA5'', ''DAL_AREA6''].
      enter_map_buttons inherited ''coalition_20251120'' stage s = (Return (b, None, ''DAL_FLEET_PREPARATION''), s)"
    then obtain b where bs: "b \<in> set [''DAL_AREA1'', ''DAL_AREA2'', ''DAL_AREA3'', ''DAL_AREA4'', ''DAL_AREA5'', ''DAL_AREA6'']"
      and e: "enter_map_buttons inherited ''coalition_20251120'' stage s = (Return (b, None, ''DAL_FLEET_PREPARATION''), s)"
      by blast
    from bs have "click_budget ''coalition_20251120'' b None ''DAL_FLEET_PREPARATION'' enter_locals_init ''DAL_FLEET_PREPARATION'' = 0"
      by (auto simp: click_budget_def)
    with loop_clicks [of "''DAL_FLEET_PREPARATION''" s n scr g "''coalition_20251120''" stage mode b None "''DAL_FLEET_PREPARATION''" skip enter_locals_init]
    show ?thesis by (simp add: enter_map_def andthen_def e)
  next
    assume "enter_map_buttons inherited ''coalition_20251120'' stage s
        = (Raise CampaignNameError, logger ERROR (''('' @ py_repr ''coalition_20251120'' @ '', '' @ py_repr (lower stage) @ '')'') s)"
    then show ?thesis by (simp add: enter_map_def andthen_def logger_def)
  qed
  have B: "timer_reached (now scr s) (fleet_timer L) \<and> matching (image scr s) fp (Offset 20 50) 85
        \<longrightarrow> enter_map_fleet scr ''coalition_20251120'' stage mode fp L s
             = (Raise ScriptError, logger ERROR ''FLEET_SWITCH is not defined in event coalition_20251120'' s)"
    by (simp add: enter_map_fleet_def andthen_def hfp_20251120)
  from A B hfp_20251120 [of stage mode s] show ?thesis by simp
qed

text \<open>
  The fleet preparation screen of the event on the first frame: the branch raises, and so
  does the whole call.
\<close>

theorem fleet_preparation_20251120_raises_witness:
  "enter_map_fleet (steady_screen [''DAL_FLEET_PREPARATION''] 1000) ''coalition_20251120''
       ''area1-normal'' ''single'' ''DAL_FLEET_PREPARATION'' enter_locals_init start_state
     = (Raise ScriptError,
        logger ERROR ''FLEET_SWITCH is not defined in event coalition_20251120'' start_state)
   \<and> fst (enter_map 3 (steady_screen [''DAL_FLEET_PREPARATION''] 1000) demo_graph Map.empty
        ''coalition_20251120'' ''area1-normal'' ''single'' True start_state)
     = Raise ScriptError"
proof -
  have h: "timer_reached (now (steady_screen [''DAL_FLEET_PREPARATION''] 1000) start_state)
             (fleet_timer enter_locals_init)
           \<and> matching (image (steady_screen [''DAL_FLEET_PREPARATION''] 1000) start_state)
               ''DAL_FLEET_PREPARATION'' (Offset 20 50) 85"
    by (simp add: base_defs coalition_defs scenario_defs)
  from fleet_preparation_20251120_raises [of "''area1-normal''" "''single''" start_state "steady_screen [''DAL_FLEET_PREPARATION''] 1000"
       enter_locals_init "''DAL_FLEET_PREPARATION''" 3 demo_graph Map.empty True] h
  have f: "enter_map_fleet (steady_screen [''DAL_FLEET_PREPARATION''] 1000) ''coalition_20251120''
       ''area1-normal'' ''single'' ''DAL_FLEET_PREPARATION'' enter_locals_init start_state
     = (Raise ScriptError,
        logger ERROR ''FLEET_SWITCH is not defined in event coalition_20251120'' start_state)"
    by blast
  have "fst (enter_map 3 (steady_screen [''DAL_FLEET_PREPARATION''] 1000) demo_graph Map.empty
        ''coalition_20251120'' ''area1-normal'' ''single'' True start_state)
     = Raise ScriptError"
    by (simp add: numeral_3_eq_3 base_defs coalition_defs scenario_defs)
  with f show ?thesis by simp
qed

text \<open>
  C10. For the event \<open>coalition_20260122\<close>, whatever the stage: \<open>enter_map\<close> looks up
  \<open>coalition_20260122_get_entrance_difficulty\<close>, which class \<open>CoalitionUI\<close> does not
  define; when no base class offers it either, the call raises during initialisation
  (\<open>CampaignNameError\<close> for an unknown stage, the attribute error otherwise), before the
  loop and without any click or other action.
\<close>

theorem enter_map_20260122_fails_before_loop:
  assumes "inherited ''coalition_20260122_get_entrance_difficulty'' = None"
  shows "''coalition_20260122_get_entrance_difficulty'' \<notin> set CoalitionUI_methods
    \<and> enter_map n scr g inherited ''coalition_20260122'' stage mode skip s
       = (if map_of coalition_get_entrance_dic (''coalition_20260122'', lower stage) = None
          then (Raise CampaignNameError, logger ERROR (''('' @ py_repr ''coalition_20260122'' @ '', '' @ py_repr (lower stage) @ '')'') s)
          else (Raise (AttributeError ''coalition_20260122_get_entrance_difficulty''), s))
    \<and> actions (trace (snd (enter_map n scr g inherited ''coalition_20260122'' stage mode skip s)))
       = actions (trace s)"
proof -
  have m: "''coalition_20260122_get_entrance_difficulty'' \<notin> set CoalitionUI_methods"
    by (simp add: CoalitionUI_methods_def)
  have e: "enter_map n scr g inherited ''coalition_20260122'' stage mode skip s
       = (if map_of coalition_get_entrance_dic (''coalition_20260122'', lower stage) = None
          then (Raise CampaignNameError, logger ERROR (''('' @ py_repr ''coalition_20260122'' @ '', '' @ py_repr (lower stage) @ '')'') s)
          else (Raise (AttributeError ''coalition_20260122_get_entrance_difficulty''), s))"
    using assms
    by (auto simp: enter_map_def enter_map_buttons_def andthen_def coalition_get_entrance_def
          dic_lookup_def Let_def ret_def raise_def getattr_difficulty_def split: option.splits)
  have "actions (trace (snd (enter_map n scr g inherited ''coalition_20260122'' stage mode skip s)))
       = actions (trace s)"
    by (simp add: e logger_def emit_def actions_def)
  with m e show ?thesis by simp
qed

text \<open>A known stage of the event, no inherited method: the attribute error, nothing done.\<close>

theorem enter_map_20260122_fails_before_loop_witness:
  "enter_map 3 (steady_screen [''COALITION_CHECK''] 1000) demo_graph Map.empty
      ''coalition_20260122'' ''area1-normal'' ''single'' True start_state
    = (Raise (AttributeError ''coalition_20260122_get_entrance_difficulty''), start_state)"
  using enter_map_20260122_fails_before_loop [of Map.empty 3 "steady_screen [''COALITION_CHECK''] 1000" demo_graph "''area1-normal''" "''single''" True start_state]
  by (simp add: coalition_get_entrance_dic_def lower_def lower_char_def)

section \<open>The interrupt chain\<close>


lemma actions_emit [simp]:
  "actions (trace (emit e s)) = (if is_action e then actions (trace s) @ [e] else actions (trace s))"
  by (simp add: actions_def emit_def)

lemma trace_set_interval_timer [simp]: "trace (set_interval_timer b tm s) = trace s"
  by (simp add: set_interval_timer_def)

lemma trace_interval_reset [simp]: "trace (interval_reset scr b s) = trace s"
  by (simp add: interval_reset_def)

lemma trace_screenshot [simp]: "trace (device_screenshot s) = trace s"
  by (simp add: device_screenshot_def)

lemma actions_logger [simp]: "actions (trace (logger l m s)) = actions (trace s)"
  by (simp add: logger_def)

lemma actions_click [simp]: "actions (trace (device_click b s)) = actions (trace s) @ [Click b]"
  by (simp add: device_click_def)

lemma actions_sleep [simp]: "actions (trace (device_sleep n s)) = actions (trace s)"
  by (simp add: device_sleep_def)

lemma appear_cases:
  obtains s' where "appear scr b off i sim s = (True, s')" "trace s' = trace s" "cur s' = cur s"
      "matching (image scr s) b off sim"
  | "appear scr b off i sim s = (False, s)"
  by (cases "appear scr b off i sim s")
     (auto simp: appear_def set_interval_timer_def split: if_splits)

lemma one_action_ret_False: "one_action (ret False)"
  by (simp add: one_action_def ret_def)

lemma one_action_click_rule: "one_action (click_rule scr b off i)"
  unfolding one_action_def
proof
  fix s show "case click_rule scr b off i s of
            (Return True, s') \<Rightarrow> (\<exists>a. actions (trace s') = actions (trace s) @ [a])
          | (Return False, s') \<Rightarrow> actions (trace s') = actions (trace s)
          | (Raise e, s') \<Rightarrow> e = RequestHumanTakeover \<and> actions (trace s') = actions (trace s)
          | (Unfinished, s') \<Rightarrow> False"
    by (rule appear_cases [of scr b off i 85 s])
       (simp_all add: click_rule_def lift_def appear_then_click_def)
qed

lemma one_action_appear_rule:
  assumes "\<And>s. \<exists>a. actions (trace (body s)) = actions (trace s) @ [a]"
  shows "one_action (appear_rule scr b off i sim body)"
  unfolding one_action_def
proof
  fix s show "case appear_rule scr b off i sim body s of
            (Return True, s') \<Rightarrow> (\<exists>a. actions (trace s') = actions (trace s) @ [a])
          | (Return False, s') \<Rightarrow> actions (trace s') = actions (trace s)
          | (Raise e, s') \<Rightarrow> e = RequestHumanTakeover \<and> actions (trace s') = actions (trace s)
          | (Unfinished, s') \<Rightarrow> False"
  proof (rule appear_cases [of scr b off i sim s])
    fix s' assume a: "appear scr b off i sim s = (True, s')" "trace s' = trace s"
    from assms [of s'] a show ?thesis by (simp add: appear_rule_def)
  next
    assume "appear scr b off i sim s = (False, s)"
    then show ?thesis by (simp add: appear_rule_def)
  qed
qed

lemma one_action_handler_rule: "one_action (handler_rule scr h)"
  by (simp add: one_action_def handler_rule_def lift_def handler_def)

lemma atc_cases:
  obtains s' where "appear_then_click scr b off i sim s = (True, s')"
      "actions (trace s') = actions (trace s) @ [Click b]" "cur s' = cur s"
      "matching (image scr s) b off sim"
  | "appear_then_click scr b off i sim s = (False, s)"
  by (rule appear_cases [of scr b off i sim s])
     (auto simp: appear_then_click_def device_click_def actions_def emit_def)

lemma actions_ui_additional_log [simp]:
  "actions (trace (ui_additional_log b t s)) = actions (trace s)"
  by (simp add: ui_additional_log_def)

lemma one_action_goto_main_rule: "one_action (goto_main_rule scr b i)"
  unfolding one_action_def
proof
  fix s show "case goto_main_rule scr b i s of
            (Return True, s') \<Rightarrow> (\<exists>a. actions (trace s') = actions (trace s) @ [a])
          | (Return False, s') \<Rightarrow> actions (trace s') = actions (trace s)
          | (Raise e, s') \<Rightarrow> e = RequestHumanTakeover \<and> actions (trace s') = actions (trace s)
          | (Unfinished, s') \<Rightarrow> False"
  proof (rule appear_cases [of scr b "Offset 30 30" i 85 s])
    fix s' assume a: "appear scr b (Offset 30 30) i 85 s = (True, s')" "trace s' = trace s"
    show ?thesis
      by (rule atc_cases [of scr "''GOTO_MAIN''" "Offset 30 30" 0 85 "ui_additional_log b ''GOTO_MAIN'' s'"])
         (simp_all add: goto_main_rule_def lift_def a)
  next
    assume "appear scr b (Offset 30 30) i 85 s = (False, s)"
    then show ?thesis by (simp add: goto_main_rule_def)
  qed
qed

lemma one_action_player_check_rule: "one_action (player_check_rule scr)"
  unfolding one_action_def
proof
  fix s show "case player_check_rule scr s of
            (Return True, s') \<Rightarrow> (\<exists>a. actions (trace s') = actions (trace s) @ [a])
          | (Return False, s') \<Rightarrow> actions (trace s') = actions (trace s)
          | (Raise e, s') \<Rightarrow> e = RequestHumanTakeover \<and> actions (trace s') = actions (trace s)
          | (Unfinished, s') \<Rightarrow> False"
  proof (rule appear_cases [of scr "''PLAYER_CHECK''" "Offset 30 30" 3000 85 s])
    fix s' assume a: "appear scr ''PLAYER_CHECK'' (Offset 30 30) 3000 85 s = (True, s')" "trace s' = trace s"
    define s1 where "s1 = ui_additional_log ''PLAYER_CHECK'' ''GOTO_MAIN'' s'"
    have s1: "actions (trace s1) = actions (trace s)" by (simp add: s1_def a)
    show ?thesis
    proof (rule atc_cases [of scr "''GOTO_MAIN''" "Offset 30 30" 0 85 s1])
      fix s2 assume "appear_then_click scr ''GOTO_MAIN'' (Offset 30 30) 0 85 s1 = (True, s2)"
        "actions (trace s2) = actions (trace s1) @ [Click ''GOTO_MAIN'']"
      then show ?thesis by (simp add: player_check_rule_def a s1_def [symmetric] s1)
    next
      assume f: "appear_then_click scr ''GOTO_MAIN'' (Offset 30 30) 0 85 s1 = (False, s1)"
      show ?thesis
        by (rule atc_cases [of scr "''BACK_ARROW''" "Offset 30 30" 0 85 s1])
           (simp_all add: player_check_rule_def a s1_def [symmetric] s1 f lift_def)
    qed
  next
    assume "appear scr ''PLAYER_CHECK'' (Offset 30 30) 3000 85 s = (False, s)"
    then show ?thesis by (simp add: player_check_rule_def)
  qed
qed

lemma one_action_chain:
  "list_all one_action rs \<Longrightarrow> one_action (chain rs)"
proof (induction rs)
  case Nil
  show ?case by (simp add: one_action_def)
next
  case (Cons r rs)
  then have r: "one_action r" and c: "one_action (chain rs)" by simp_all
  show ?case
    unfolding one_action_def
  proof
    fix s
    obtain q s1 where q: "r s = (q, s1)" by (cases "r s")
    from r have rs: "case r s of
            (Return True, s') \<Rightarrow> (\<exists>a. actions (trace s') = actions (trace s) @ [a])
          | (Return False, s') \<Rightarrow> actions (trace s') = actions (trace s)
          | (Raise e, s') \<Rightarrow> e = RequestHumanTakeover \<and> actions (trace s') = actions (trace s)
          | (Unfinished, s') \<Rightarrow> False" by (simp add: one_action_def)
    from c have cs: "case chain rs s1 of
            (Return True, s') \<Rightarrow> (\<exists>a. actions (trace s') = actions (trace s1) @ [a])
          | (Return False, s') \<Rightarrow> actions (trace s') = actions (trace s1)
          | (Raise e, s') \<Rightarrow> e = RequestHumanTakeover \<and> actions (trace s') = actions (trace s1)
          | (Unfinished, s') \<Rightarrow> False" by (simp add: one_action_def)
    show "case chain (r # rs) s of
            (Return True, s') \<Rightarrow> (\<exists>a. actions (trace s') = actions (trace s) @ [a])
          | (Return False, s') \<Rightarrow> actions (trace s') = actions (trace s)
          | (Raise e, s') \<Rightarrow> e = RequestHumanTakeover \<and> actions (trace s') = actions (trace s)
          | (Unfinished, s') \<Rightarrow> False"
      using rs cs q by (auto split: outcome.splits bool.splits prod.splits)
  qed
qed


lemma one_action_preparation_rule: "one_action (preparation_rule scr)"
  unfolding one_action_def
proof
  fix s show "case preparation_rule scr s of
            (Return True, s') \<Rightarrow> (\<exists>a. actions (trace s') = actions (trace s) @ [a])
          | (Return False, s') \<Rightarrow> actions (trace s') = actions (trace s)
          | (Raise e, s') \<Rightarrow> e = RequestHumanTakeover \<and> actions (trace s') = actions (trace s)
          | (Unfinished, s') \<Rightarrow> False"
  proof (rule appear_cases [of scr "''MAP_PREPARATION''" "Offset 30 30" 3000 85 s])
    fix s' assume "appear scr ''MAP_PREPARATION'' (Offset 30 30) 3000 85 s = (True, s')" "trace s' = trace s"
    then show ?thesis by (simp add: preparation_rule_def)
  next
    assume a: "appear scr ''MAP_PREPARATION'' (Offset 30 30) 3000 85 s = (False, s)"
    show ?thesis
    proof (rule appear_cases [of scr "''FLEET_PREPARATION''" "Offset 20 50" 3000 85 s])
      fix s' assume "appear scr ''FLEET_PREPARATION'' (Offset 20 50) 3000 85 s = (True, s')" "trace s' = trace s"
      then show ?thesis by (simp add: preparation_rule_def a)
    next
      assume b: "appear scr ''FLEET_PREPARATION'' (Offset 20 50) 3000 85 s = (False, s)"
      show ?thesis
        by (rule appear_cases [of scr "''RAID_FLEET_PREPARATION''" "Offset 30 30" 3000 85 s])
           (simp_all add: preparation_rule_def a b)
    qed
  qed
qed

lemma one_action_withdraw_rule: "one_action (withdraw_rule scr)"
  unfolding one_action_def
proof
  fix s show "case withdraw_rule scr s of
            (Return True, s') \<Rightarrow> (\<exists>a. actions (trace s') = actions (trace s) @ [a])
          | (Return False, s') \<Rightarrow> actions (trace s') = actions (trace s)
          | (Raise e, s') \<Rightarrow> e = RequestHumanTakeover \<and> actions (trace s') = actions (trace s)
          | (Unfinished, s') \<Rightarrow> False"
  proof (rule appear_cases [of scr "''WITHDRAW''" "Offset 30 30" 3000 85 s])
    fix s' assume a: "appear scr ''WITHDRAW'' (Offset 30 30) 3000 85 s = (True, s')" "trace s' = trace s"
    define s2 where "s2 = device_screenshot (device_sleep 2000
       (logger INFO ''WITHDRAW button found, wait until map loaded to prevent bugs in game client'' s'))"
    have s2: "actions (trace s2) = actions (trace s)" by (simp add: s2_def a)
    show ?thesis
      by (rule atc_cases [of scr "''WITHDRAW''" "Offset 30 30" 0 85 s2])
         (simp_all add: withdraw_rule_def a s2_def [symmetric] s2)
  next
    assume "appear scr ''WITHDRAW'' (Offset 30 30) 3000 85 s = (False, s)"
    then show ?thesis by (simp add: withdraw_rule_def)
  qed
qed

lemma one_action_idle_rule: "one_action (idle_rule scr b)"
  by (simp add: one_action_def idle_rule_def)

lemma one_action_handle_idle_page: "one_action (handle_idle_page scr)"
proof -
  have c: "one_action (chain [idle_rule scr ''IDLE'', idle_rule scr ''IDLE_2'', idle_rule scr ''IDLE_3''])"
    by (rule one_action_chain) (simp add: one_action_idle_rule)
  show ?thesis
    unfolding one_action_def
  proof
    fix s
    from c have "case chain [idle_rule scr ''IDLE'', idle_rule scr ''IDLE_2'', idle_rule scr ''IDLE_3''] s of
            (Return True, s') \<Rightarrow> (\<exists>a. actions (trace s') = actions (trace s) @ [a])
          | (Return False, s') \<Rightarrow> actions (trace s') = actions (trace s)
          | (Raise e, s') \<Rightarrow> e = RequestHumanTakeover \<and> actions (trace s') = actions (trace s)
          | (Unfinished, s') \<Rightarrow> False" by (simp add: one_action_def)
    then show "case handle_idle_page scr s of
            (Return True, s') \<Rightarrow> (\<exists>a. actions (trace s') = actions (trace s) @ [a])
          | (Return False, s') \<Rightarrow> actions (trace s') = actions (trace s)
          | (Raise e, s') \<Rightarrow> e = RequestHumanTakeover \<and> actions (trace s') = actions (trace s)
          | (Unfinished, s') \<Rightarrow> False"
      by (simp add: handle_idle_page_def)
  qed
qed

lemma one_action_reset_fleet_preparation_rule: "one_action (reset_fleet_preparation_rule scr)"
  unfolding one_action_def
proof
  fix s show "case reset_fleet_preparation_rule scr s of
            (Return True, s') \<Rightarrow> (\<exists>a. actions (trace s') = actions (trace s) @ [a])
          | (Return False, s') \<Rightarrow> actions (trace s') = actions (trace s)
          | (Raise e, s') \<Rightarrow> e = RequestHumanTakeover \<and> actions (trace s') = actions (trace s)
          | (Unfinished, s') \<Rightarrow> False"
    by (rule atc_cases [of scr "''RESET_FLEET_PREPARATION''" "Offset 30 30" 3000 85 s])
       (simp_all add: reset_fleet_preparation_rule_def)
qed

lemma one_action_ui_page_os_popups: "one_action (ui_page_os_popups scr)"
proof -
  have c: "one_action (chain (ui_page_os_popups_rules scr))"
    by (rule one_action_chain)
       (simp add: ui_page_os_popups_rules_def one_action_click_rule
          one_action_reset_fleet_preparation_rule one_action_appear_rule)
  show ?thesis
    unfolding one_action_def
  proof
    fix s
    from c have "case chain (ui_page_os_popups_rules scr) s of
            (Return True, s') \<Rightarrow> (\<exists>a. actions (trace s') = actions (trace s) @ [a])
          | (Return False, s') \<Rightarrow> actions (trace s') = actions (trace s)
          | (Raise e, s') \<Rightarrow> e = RequestHumanTakeover \<and> actions (trace s') = actions (trace s)
          | (Unfinished, s') \<Rightarrow> False" by (simp add: one_action_def)
    then show "case ui_page_os_popups scr s of
            (Return True, s') \<Rightarrow> (\<exists>a. actions (trace s') = actions (trace s) @ [a])
          | (Return False, s') \<Rightarrow> actions (trace s') = actions (trace s)
          | (Raise e, s') \<Rightarrow> e = RequestHumanTakeover \<and> actions (trace s') = actions (trace s)
          | (Unfinished, s') \<Rightarrow> False"
      by (simp add: ui_page_os_popups_def)
  qed
qed

lemma one_action_ui_page_main_popups: "one_action (ui_page_main_popups scr get_ship)"
  unfolding ui_page_main_popups_def
  by (rule one_action_chain)
     (simp add: ui_page_main_popups_rules_def one_action_click_rule one_action_handler_rule
        one_action_goto_main_rule one_action_player_check_rule one_action_appear_rule
        one_action_ret_False)

lemma one_action_ui_additional: "one_action (ui_additional scr get_ship)"
  unfolding ui_additional_def
  by (rule one_action_chain)
     (simp add: ui_additional_rules_def one_action_click_rule one_action_handler_rule
        one_action_appear_rule one_action_ui_page_os_popups one_action_ui_page_main_popups
        one_action_preparation_rule one_action_withdraw_rule one_action_handle_idle_page)

lemma chain_first:
  "i < length rs \<Longrightarrow> declined (take i rs) s = Some si \<Longrightarrow> (rs ! i) si = (Return True, s')
     \<Longrightarrow> chain rs s = (Return True, s')"
proof (induction rs arbitrary: i s)
  case Nil
  then show ?case by simp
next
  case (Cons r rs)
  show ?case
  proof (cases i)
    case 0
    with Cons.prems show ?thesis by simp
  next
    case (Suc j)
    with Cons.prems obtain s1 where r: "r s = (Return False, s1)" and d: "declined (take j rs) s1 = Some si"
      by (auto split: prod.splits outcome.splits bool.splits)
    from Cons.prems Suc have "j < length rs" "(rs ! j) si = (Return True, s')" by simp_all
    from Cons.IH [OF this(1) d this(2)] r show ?thesis by simp
  qed
qed

lemma chain_False:
  "(chain rs s = (Return False, s')) = (declined rs s = Some s')"
  by (induction rs arbitrary: s) (auto split: prod.splits outcome.splits bool.splits)

lemma chain_True:
  "chain rs s = (Return True, s') \<Longrightarrow>
     \<exists>i si. i < length rs \<and> declined (take i rs) s = Some si \<and> (rs ! i) si = (Return True, s')"
proof (induction rs arbitrary: s)
  case Nil
  then show ?case by simp
next
  case (Cons r rs)
  obtain q s1 where q: "r s = (q, s1)" by (cases "r s")
  show ?case
  proof (cases "q = Return True")
    case True
    with q Cons.prems have "declined (take 0 (r # rs)) s = Some s \<and> ((r # rs) ! 0) s = (Return True, s')"
      by simp
    then show ?thesis by blast
  next
    case False
    with q Cons.prems have f: "q = Return False" and c: "chain rs s1 = (Return True, s')"
      by (auto split: outcome.splits bool.splits)
    from Cons.IH [OF c] obtain i si where
      "i < length rs" "declined (take i rs) s1 = Some si" "(rs ! i) si = (Return True, s')" by blast
    with q f have "Suc i < length (r # rs) \<and> declined (take (Suc i) (r # rs)) s = Some si
        \<and> ((r # rs) ! Suc i) si = (Return True, s')" by simp
    then show ?thesis by blast
  qed
qed

section \<open>Bounded clicks\<close>


lemma clicks_of_set_interval_timer [simp]: "clicks_of b (trace (set_interval_timer c tm s)) = clicks_of b (trace s)"
  by simp

lemma clicks_of_logger [simp]: "clicks_of b (trace (logger l m s)) = clicks_of b (trace s)"
  by (simp add: logger_def)

lemma clicks_of_click [simp]:
  "clicks_of b (trace (device_click c s)) = (if c = b then Suc (clicks_of b (trace s)) else clicks_of b (trace s))"
  by (simp add: device_click_def)

lemma opsi_emit [simp]: "opsi_reset_fleet_preparation_click (emit e s) = opsi_reset_fleet_preparation_click s"
  by (simp add: emit_def)

lemma opsi_appear [simp]:
  "opsi_reset_fleet_preparation_click (snd (appear scr b off i sim s)) = opsi_reset_fleet_preparation_click s"
  by (simp add: appear_def set_interval_timer_def)

lemma opsi_set_interval_timer [simp]:
  "opsi_reset_fleet_preparation_click (set_interval_timer b tm s) = opsi_reset_fleet_preparation_click s"
  by (simp add: set_interval_timer_def)

lemma opsi_click [simp]:
  "opsi_reset_fleet_preparation_click (device_click b s) = opsi_reset_fleet_preparation_click s"
  by (simp add: device_click_def)

lemma opsi_logger [simp]:
  "opsi_reset_fleet_preparation_click (logger l m s) = opsi_reset_fleet_preparation_click s"
  by (simp add: logger_def)

lemma opsi_interval_reset [simp]:
  "opsi_reset_fleet_preparation_click (interval_reset scr b s) = opsi_reset_fleet_preparation_click s"
  by (simp add: interval_reset_def)

lemma appear_eqD:
  "appear scr b off i sim s = (a, s') \<Longrightarrow>
     trace s' = trace s \<and> cur s' = cur s
     \<and> opsi_reset_fleet_preparation_click s' = opsi_reset_fleet_preparation_click s"
  by (auto simp: appear_def set_interval_timer_def split: if_splits)

lemma os_popups_budget:
  assumes "opsi_reset_fleet_preparation_click s < 5" "ui_page_os_popups scr s = (r, s')"
  shows "opsi_reset_fleet_preparation_click s' \<le> 5
     \<and> clicks_of ''RESET_FLEET_PREPARATION'' (trace s') + opsi_reset_fleet_preparation_click s
         = clicks_of ''RESET_FLEET_PREPARATION'' (trace s) + opsi_reset_fleet_preparation_click s'"
  using assms
  by (auto simp: ui_page_os_popups_def ui_page_os_popups_rules_def click_rule_def lift_def
        appear_then_click_def reset_fleet_preparation_rule_def appear_rule_def
        ui_additional_log_def
        split: prod.splits bool.splits outcome.splits
        dest!: appear_eqD)

lemma os_popups_exhausted:
  "5 \<le> opsi_reset_fleet_preparation_click s \<Longrightarrow>
     fst (ui_page_os_popups scr s) = Raise RequestHumanTakeover
     \<and> clicks_of b (trace (snd (ui_page_os_popups scr s))) = clicks_of b (trace s)
     \<and> opsi_reset_fleet_preparation_click (snd (ui_page_os_popups scr s)) = opsi_reset_fleet_preparation_click s"
  by (simp add: ui_page_os_popups_def logger_def)

lemma tick_exhausted:
  "\<not> counters_le 5 L \<Longrightarrow>
     fst (enter_map_tick scr g event stage mode button bd fp L s) = Raise RequestHumanTakeover
     \<and> clicks_of b (trace (snd (enter_map_tick scr g event stage mode button bd fp L s))) = clicks_of b (trace s)"
  by (auto simp: counters_le_def enter_map_tick_def andthen_def enter_map_guards_def)


lemma enter_map_loop_numeral:
  "enter_map_loop (numeral k) scr g event stage mode button bd fp skip L s =
     (case enter_map_tick scr g event stage mode button bd fp L
             (if skip then s else device_screenshot s) of
        (Return Break, s') \<Rightarrow> (Return (), s')
      | (Return (Continue L'), s') \<Rightarrow>
          enter_map_loop (pred_numeral k) scr g event stage mode button bd fp False L' s'
      | (Raise e, s') \<Rightarrow> (Raise e, s')
      | (Unfinished, s') \<Rightarrow> (Unfinished, s'))"
  by (simp add: numeral_eq_Suc)

lemmas chain_defs = ui_additional_def ui_additional_rules_def ui_page_os_popups_def
  ui_page_os_popups_rules_def ui_page_main_popups_def ui_page_main_popups_rules_def click_rule_def
  appear_rule_def handler_rule_def ui_additional_log_def goto_main_rule_def player_check_rule_def
  reset_fleet_preparation_rule_def preparation_rule_def withdraw_rule_def idle_rule_def
  handle_idle_page_def

text \<open>
  C1, as amended. The counters of \<open>enter_map\<close> are tested with \<open>> 5\<close> at the head of the
  loop body, so each of its three targets (entrance, difficulty, fleet preparation) is
  clicked at most 6 times in a run, and the tick that starts with a counter above 5
  raises \<open>RequestHumanTakeover\<close> without clicking. The OpSi counter is tested with
  \<open>>= 5\<close>: below 5, a call of \<open>ui_page_os_popups\<close> raises the counter by exactly the
  clicks of \<open>RESET_FLEET_PREPARATION\<close> it issues and never past 5; at 5 the call raises
  \<open>RequestHumanTakeover\<close> without clicking.
\<close>

theorem bounded_clicks_amended:
  "clicks_of b (trace (snd (enter_map_loop n scr g event stage mode button bd fp skip enter_locals_init s)))
     \<le> clicks_of b (trace s)
        + (if b = button then 6 else 0) + (if Some b = bd then 6 else 0)
        + (if b = fp \<and> event \<noteq> ''coalition_20251120'' then 6 else 0)
   \<and> (\<not> counters_le 5 L \<longrightarrow>
        fst (enter_map_tick scr g event stage mode button bd fp L t) = Raise RequestHumanTakeover
        \<and> clicks_of b (trace (snd (enter_map_tick scr g event stage mode button bd fp L t)))
            = clicks_of b (trace t))
   \<and> (opsi_reset_fleet_preparation_click u < 5 \<longrightarrow>
        opsi_reset_fleet_preparation_click (snd (ui_page_os_popups scr u)) \<le> 5
        \<and> clicks_of ''RESET_FLEET_PREPARATION'' (trace (snd (ui_page_os_popups scr u)))
            + opsi_reset_fleet_preparation_click u
           = clicks_of ''RESET_FLEET_PREPARATION'' (trace u)
            + opsi_reset_fleet_preparation_click (snd (ui_page_os_popups scr u)))
   \<and> (5 \<le> opsi_reset_fleet_preparation_click v \<longrightarrow>
        fst (ui_page_os_popups scr v) = Raise RequestHumanTakeover
        \<and> clicks_of b (trace (snd (ui_page_os_popups scr v))) = clicks_of b (trace v)
        \<and> opsi_reset_fleet_preparation_click (snd (ui_page_os_popups scr v))
            = opsi_reset_fleet_preparation_click v)"
proof -
  have A: "clicks_of b (trace (snd (enter_map_loop n scr g event stage mode button bd fp skip enter_locals_init s)))
     \<le> clicks_of b (trace s)
        + (if b = button then 6 else 0) + (if Some b = bd then 6 else 0)
        + (if b = fp \<and> event \<noteq> ''coalition_20251120'' then 6 else 0)"
  proof -
    have eq: "click_budget event button bd fp enter_locals_init b
        = (if b = button then 6 else 0) + (if Some b = bd then 6 else 0)
          + (if b = fp \<and> event \<noteq> ''coalition_20251120'' then 6 else 0)"
      by (simp add: click_budget_def enter_locals_init_def)
    from loop_clicks [of b s n scr g event stage mode button bd fp skip enter_locals_init]
    have "clicks_of b (trace (snd (enter_map_loop n scr g event stage mode button bd fp skip enter_locals_init s)))
       \<le> clicks_of b (trace s) + click_budget event button bd fp enter_locals_init b"
      by blast
    then show ?thesis by (simp only: eq add.assoc)
  qed
  have C: "opsi_reset_fleet_preparation_click u < 5 \<longrightarrow>
        opsi_reset_fleet_preparation_click (snd (ui_page_os_popups scr u)) \<le> 5
        \<and> clicks_of ''RESET_FLEET_PREPARATION'' (trace (snd (ui_page_os_popups scr u)))
            + opsi_reset_fleet_preparation_click u
           = clicks_of ''RESET_FLEET_PREPARATION'' (trace u)
            + opsi_reset_fleet_preparation_click (snd (ui_page_os_popups scr u))"
    using os_popups_budget [of u scr "fst (ui_page_os_popups scr u)" "snd (ui_page_os_popups scr u)"]
    by simp
  from A C tick_exhausted [of L scr g event stage mode button bd fp t b]
    os_popups_exhausted [of v scr b]
  show ?thesis by blast
qed

text \<open>
  The bounds on a screen that shows the coalition page and the OpSi popup for ever, the
  head of the loop body with the entrance counter at 6, and the OpSi handler with its
  counter at 0 and at 5.
\<close>

theorem bounded_clicks_amended_witness:
  "clicks_of ''FROSTFALL_TC1''
      (trace (snd (enter_map_loop 9 (steady_screen [''COALITION_CHECK'', ''RESET_FLEET_PREPARATION''] 5000)
         demo_graph ''coalition_20230323'' ''tc1'' ''single'' ''FROSTFALL_TC1'' None
         ''FROSTFALL_FLEET_PREPARATION'' True enter_locals_init start_state))) \<le> 6
   \<and> fst (enter_map_tick (steady_screen [''COALITION_CHECK'', ''RESET_FLEET_PREPARATION''] 5000)
         demo_graph ''coalition_20230323'' ''tc1'' ''single'' ''FROSTFALL_TC1'' None
         ''FROSTFALL_FLEET_PREPARATION'' (enter_locals_init\<lparr>campaign_click := 6\<rparr>) start_state)
       = Raise RequestHumanTakeover
   \<and> opsi_reset_fleet_preparation_click
        (snd (ui_page_os_popups (steady_screen [''COALITION_CHECK'', ''RESET_FLEET_PREPARATION''] 5000)
           start_state)) \<le> 5
   \<and> fst (ui_page_os_popups (steady_screen [''COALITION_CHECK'', ''RESET_FLEET_PREPARATION''] 5000)
        (start_state\<lparr>opsi_reset_fleet_preparation_click := 5\<rparr>)) = Raise RequestHumanTakeover"
proof -
  have h1: "\<not> counters_le 5 (enter_locals_init\<lparr>campaign_click := 6\<rparr>)"
    by (simp add: counters_le_def)
  have h2: "opsi_reset_fleet_preparation_click start_state < 5"
    by (simp add: start_state_def)
  have h3: "5 \<le> opsi_reset_fleet_preparation_click (start_state\<lparr>opsi_reset_fleet_preparation_click := 5\<rparr>)"
    by simp
  have c0: "clicks_of ''FROSTFALL_TC1'' (trace start_state) = 0"
    by (simp add: start_state_def clicks_of_def)
  from bounded_clicks_amended [of "''FROSTFALL_TC1''" 9 "steady_screen [''COALITION_CHECK'', ''RESET_FLEET_PREPARATION''] 5000"
      demo_graph "''coalition_20230323''" "''tc1''" "''single''" "''FROSTFALL_TC1''" None
      "''FROSTFALL_FLEET_PREPARATION''" True start_state "enter_locals_init\<lparr>campaign_click := 6\<rparr>"
      start_state start_state "start_state\<lparr>opsi_reset_fleet_preparation_click := 5\<rparr>"]
    h1 h2 h3 c0
  show ?thesis by simp
qed

text \<open>
  The claim as stated fails for \<open>enter_map\<close>: the coalition page stays on screen and the
  stage never opens; the entrance is clicked on each of the first six ticks and the
  seventh raises.
\<close>

theorem enter_map_sixth_click:
  "fst (enter_map 7 (steady_screen [''COALITION_CHECK''] 5000) demo_graph Map.empty
          ''coalition_20230323'' ''tc1'' ''single'' True start_state) = Raise RequestHumanTakeover
   \<and> clicks_of ''FROSTFALL_TC1''
        (trace (snd (enter_map 7 (steady_screen [''COALITION_CHECK''] 5000) demo_graph Map.empty
          ''coalition_20230323'' ''tc1'' ''single'' True start_state))) = 6"
  by (simp add: enter_map_loop_numeral base_defs coalition_defs scenario_defs clicks_of_def)

section \<open>Interrupt precedence\<close>

text \<open>
  C4, as amended. On one call of \<open>ui_additional\<close> (and of \<open>ui_page_main_popups\<close>) at most
  one action is executed: the call reports \<open>True\<close> exactly when one was, and then it is
  the action of the first rule, in the order of the source, that handles something when
  run after the rules before it have declined; the state returned is that rule's, so no
  later rule is run. The call reports \<open>False\<close> exactly when every rule has declined. A
  rule whose outer test matches declines all the same when its click target is missing
  (\<open>GOTO_MAIN\<close> or \<open>BACK_ARROW\<close> not on screen, \<open>WITHDRAW\<close> gone after the new
  screenshot); the rules after it are then run.
\<close>

theorem first_handling_rule_wins:
  "one_action (ui_additional scr get_ship)
   \<and> one_action (ui_page_main_popups scr get_ship)
   \<and> (i < length (ui_additional_rules scr get_ship)
        \<and> declined (take i (ui_additional_rules scr get_ship)) s = Some si
        \<and> (ui_additional_rules scr get_ship ! i) si = (Return True, s')
      \<longrightarrow> ui_additional scr get_ship s = (Return True, s'))
   \<and> (j < length (ui_page_main_popups_rules scr get_ship)
        \<and> declined (take j (ui_page_main_popups_rules scr get_ship)) t = Some tj
        \<and> (ui_page_main_popups_rules scr get_ship ! j) tj = (Return True, t')
      \<longrightarrow> ui_page_main_popups scr get_ship t = (Return True, t'))
   \<and> (ui_additional scr get_ship s = (Return True, s')
      \<longrightarrow> (\<exists>i si. i < length (ui_additional_rules scr get_ship)
             \<and> declined (take i (ui_additional_rules scr get_ship)) s = Some si
             \<and> (ui_additional_rules scr get_ship ! i) si = (Return True, s')))
   \<and> ((ui_additional scr get_ship s = (Return False, s'))
        = (declined (ui_additional_rules scr get_ship) s = Some s'))
   \<and> ((ui_page_main_popups scr get_ship t = (Return False, t'))
        = (declined (ui_page_main_popups_rules scr get_ship) t = Some t'))"
  using chain_first [of i "ui_additional_rules scr get_ship" s si s']
    chain_first [of j "ui_page_main_popups_rules scr get_ship" t tj t']
    chain_True [of "ui_additional_rules scr get_ship" s s']
    chain_False [of "ui_additional_rules scr get_ship" s s']
    chain_False [of "ui_page_main_popups_rules scr get_ship" t t']
    one_action_ui_additional [of scr get_ship] one_action_ui_page_main_popups [of scr get_ship]
  unfolding ui_additional_def ui_page_main_popups_def
  by blast

text \<open>
  Two popups on one frame, \<open>LOGIN_ANNOUNCE\<close> declared before \<open>MONTHLY_PASS_NOTICE\<close>:
  only the first is clicked.
\<close>

theorem first_handling_rule_wins_witness:
  "ui_additional (steady_screen [''LOGIN_ANNOUNCE'', ''MONTHLY_PASS_NOTICE''] 1000) True start_state
     = (Return True,
        snd (click_rule (steady_screen [''LOGIN_ANNOUNCE'', ''MONTHLY_PASS_NOTICE''] 1000)
               ''LOGIN_ANNOUNCE'' (Offset 30 30) 3000 start_state))
   \<and> ui_page_main_popups (steady_screen [''LOGIN_ANNOUNCE'', ''MONTHLY_PASS_NOTICE''] 1000) True start_state
     = (Return True,
        snd (click_rule (steady_screen [''LOGIN_ANNOUNCE'', ''MONTHLY_PASS_NOTICE''] 1000)
               ''LOGIN_ANNOUNCE'' (Offset 30 30) 3000 start_state))
   \<and> actions (trace (snd (ui_additional (steady_screen [''LOGIN_ANNOUNCE'', ''MONTHLY_PASS_NOTICE''] 1000)
         True start_state))) = [Click ''LOGIN_ANNOUNCE'']"
proof -
  define scr where "scr = steady_screen [''LOGIN_ANNOUNCE'', ''MONTHLY_PASS_NOTICE''] 1000"
  define t' where "t' = snd (click_rule scr ''LOGIN_ANNOUNCE'' (Offset 30 30) 3000 start_state)"
  have c: "click_rule scr ''LOGIN_ANNOUNCE'' (Offset 30 30) 3000 start_state = (Return True, t')"
    by (simp add: t'_def scr_def click_rule_def base_defs scenario_defs)
  have a: "actions (trace t') = [Click ''LOGIN_ANNOUNCE'']"
    by (simp add: t'_def scr_def click_rule_def base_defs scenario_defs actions_def)
  have j1: "(1::nat) < length (ui_page_main_popups_rules scr True)"
    by (simp add: ui_page_main_popups_rules_def)
  have j2: "declined (take 1 (ui_page_main_popups_rules scr True)) start_state = Some start_state"
    by (simp add: ui_page_main_popups_rules_def handler_rule_def scr_def base_defs scenario_defs)
  have j3: "(ui_page_main_popups_rules scr True ! 1) start_state = (Return True, t')"
    by (simp add: ui_page_main_popups_rules_def c)
  from first_handling_rule_wins [of scr True 0 start_state start_state t' 1 start_state start_state t'] j1 j2 j3
  have m: "ui_page_main_popups scr True start_state = (Return True, t')"
    by blast
  have i1: "(3::nat) < length (ui_additional_rules scr True)"
    by (simp add: ui_additional_rules_def)
  have i2: "declined (take 3 (ui_additional_rules scr True)) start_state = Some start_state"
    by (simp add: ui_additional_rules_def ui_page_os_popups_def ui_page_os_popups_rules_def
          reset_fleet_preparation_rule_def click_rule_def appear_rule_def handler_rule_def
          scr_def base_defs scenario_defs)
  have i3: "(ui_additional_rules scr True ! 3) start_state = (Return True, t')"
    by (simp add: ui_additional_rules_def m)
  from first_handling_rule_wins [of scr True 3 start_state start_state t' 1 start_state start_state t'] i1 i2 i3
  have "ui_additional scr True start_state = (Return True, t')"
    by blast
  with m a show ?thesis by (simp add: scr_def t'_def)
qed

text \<open>
  The claim as stated fails: with \<open>EVENT_LIST_CHECK\<close> and \<open>MONTHLY_PASS_NOTICE\<close> on the
  frame and \<open>GOTO_MAIN\<close> not, the earlier rule's test matches (its log line is written)
  and the later rule's click is what is executed; with \<open>EVENT_LIST_CHECK\<close> alone the
  chain reports \<open>False\<close> although a rule's test matched.
\<close>

theorem matched_rule_falls_through:
  "matching (steady_screen [''EVENT_LIST_CHECK'', ''MONTHLY_PASS_NOTICE''] 1000 0) ''EVENT_LIST_CHECK'' (Offset 30 30) 85
   \<and> matching (steady_screen [''EVENT_LIST_CHECK'', ''MONTHLY_PASS_NOTICE''] 1000 0) ''MONTHLY_PASS_NOTICE'' (Offset 30 30) 85
   \<and> fst (ui_additional (steady_screen [''EVENT_LIST_CHECK'', ''MONTHLY_PASS_NOTICE''] 1000) True start_state) = Return True
   \<and> map snd (trace (snd (ui_additional (steady_screen [''EVENT_LIST_CHECK'', ''MONTHLY_PASS_NOTICE''] 1000) True start_state)))
       = [Log INFO ''UI additional: EVENT_LIST_CHECK -> GOTO_MAIN'', Click ''MONTHLY_PASS_NOTICE'']
   \<and> matching (steady_screen [''EVENT_LIST_CHECK''] 1000 0) ''EVENT_LIST_CHECK'' (Offset 30 30) 85
   \<and> fst (ui_additional (steady_screen [''EVENT_LIST_CHECK''] 1000) True start_state) = Return False"
  by (simp add: chain_defs base_defs scenario_defs)

section \<open>Navigation\<close>


lemma parent_emit [simp]: "parent (emit e s) = parent s"
  by (simp add: emit_def)

lemma parent_logger [simp]: "parent (logger l m s) = parent s"
  by (simp add: logger_def)

lemma parent_click [simp]: "parent (device_click b s) = parent s"
  by (simp add: device_click_def)

lemma parent_sleep [simp]: "parent (device_sleep n s) = parent s"
  by (simp add: device_sleep_def)

lemma parent_screenshot [simp]: "parent (device_screenshot s) = parent s"
  by (simp add: device_screenshot_def)

lemma parent_set_interval_timer [simp]: "parent (set_interval_timer b tm s) = parent s"
  by (simp add: set_interval_timer_def)

lemma parent_interval_reset [simp]: "parent (interval_reset scr b s) = parent s"
  by (simp add: interval_reset_def)

lemma parent_appear [simp]: "parent (snd (appear scr b off i sim s)) = parent s"
  by (simp add: appear_def)

lemma parent_appear_then_click [simp]: "parent (snd (appear_then_click scr b off i sim s)) = parent s"
proof -
  obtain a s' where a: "appear scr b off i sim s = (a, s')" by (cases "appear scr b off i sim s")
  with parent_appear [of scr b off i sim s] show ?thesis
    by (cases a) (simp_all add: appear_then_click_def)
qed

lemma parent_handler [simp]: "parent (snd (handler scr h s)) = parent s"
  by (simp add: handler_def)

lemma parent_ui_additional_log [simp]: "parent (ui_additional_log b t s) = parent s"
  by (simp add: ui_additional_log_def)

lemma parent_lift: "(\<And>s. parent (snd (f s)) = parent s) \<Longrightarrow> parent (snd (lift f s)) = parent s"
  by (simp add: lift_def split: prod.splits) (metis snd_conv)

lemma parent_click_rule [simp]: "parent (snd (click_rule scr b off i s)) = parent s"
  by (simp add: click_rule_def parent_lift)

lemma parent_handler_rule [simp]: "parent (snd (handler_rule scr h s)) = parent s"
  by (simp add: handler_rule_def parent_lift)

lemma parent_appear_rule:
  assumes "\<And>s. parent (body s) = parent s"
  shows "parent (snd (appear_rule scr b off i sim body s)) = parent s"
proof -
  obtain a s' where a: "appear scr b off i sim s = (a, s')" by (cases "appear scr b off i sim s")
  with parent_appear [of scr b off i sim s] assms show ?thesis
    by (cases a) (simp_all add: appear_rule_def)
qed

lemma parent_goto_main_rule [simp]: "parent (snd (goto_main_rule scr b i s)) = parent s"
proof -
  obtain a s' where a: "appear scr b (Offset 30 30) i 85 s = (a, s')"
    by (cases "appear scr b (Offset 30 30) i 85 s")
  with parent_appear [of scr b "Offset 30 30" i 85 s] show ?thesis
    by (cases a) (simp_all add: goto_main_rule_def parent_lift)
qed

lemma parent_player_check_rule [simp]: "parent (snd (player_check_rule scr s)) = parent s"
proof -
  obtain a s' where a: "appear scr ''PLAYER_CHECK'' (Offset 30 30) 3000 85 s = (a, s')"
    by (cases "appear scr ''PLAYER_CHECK'' (Offset 30 30) 3000 85 s")
  obtain c s'' where c: "appear_then_click scr ''GOTO_MAIN'' (Offset 30 30) 0 85
                  (ui_additional_log ''PLAYER_CHECK'' ''GOTO_MAIN'' s') = (c, s'')"
    by (cases "appear_then_click scr ''GOTO_MAIN'' (Offset 30 30) 0 85
                  (ui_additional_log ''PLAYER_CHECK'' ''GOTO_MAIN'' s')")
  from parent_appear_then_click [of scr "''GOTO_MAIN''" "Offset 30 30" 0 85 "ui_additional_log ''PLAYER_CHECK'' ''GOTO_MAIN'' s'"] c
  have "parent s'' = parent s'" by simp
  with a c parent_appear [of scr "''PLAYER_CHECK''" "Offset 30 30" 3000 85 s] show ?thesis
    by (cases a; cases c) (simp_all add: player_check_rule_def parent_lift)
qed

lemma parent_chain:
  "(\<And>r s. r \<in> set rs \<Longrightarrow> parent (snd (r s)) = parent s) \<Longrightarrow> parent (snd (chain rs s)) = parent s"
proof (induction rs arbitrary: s)
  case Nil
  show ?case by simp
next
  case (Cons r rs)
  obtain q s1 where q: "r s = (q, s1)" by (cases "r s")
  from Cons.prems [of r s] q have p: "parent s1 = parent s" by simp
  have "parent (snd (chain rs s1)) = parent s1"
    by (rule Cons.IH) (simp add: Cons.prems)
  with p q show ?case by (auto split: outcome.splits bool.splits)
qed

lemma parent_reset_fleet_preparation_rule [simp]:
  "parent (snd (reset_fleet_preparation_rule scr s)) = parent s"
proof -
  obtain a s' where a: "appear_then_click scr ''RESET_FLEET_PREPARATION'' (Offset 30 30) 3000 85 s = (a, s')"
    by (cases "appear_then_click scr ''RESET_FLEET_PREPARATION'' (Offset 30 30) 3000 85 s")
  with parent_appear_then_click [of scr "''RESET_FLEET_PREPARATION''" "Offset 30 30" 3000 85 s] show ?thesis
    by (cases a) (simp_all add: reset_fleet_preparation_rule_def)
qed

lemma parent_ui_page_os_popups [simp]: "parent (snd (ui_page_os_popups scr s)) = parent s"
proof -
  have "parent (snd (chain (ui_page_os_popups_rules scr) s)) = parent s"
    by (rule parent_chain) (auto simp: ui_page_os_popups_rules_def parent_appear_rule)
  then show ?thesis by (simp add: ui_page_os_popups_def)
qed

lemma parent_ret [simp]: "parent (snd (ret x s)) = parent s"
  by (simp add: ret_def)

lemma parent_ui_page_main_popups [simp]: "parent (snd (ui_page_main_popups scr get_ship s)) = parent s"
  unfolding ui_page_main_popups_def
  by (rule parent_chain) (auto simp: ui_page_main_popups_rules_def parent_appear_rule)

lemma parent_preparation_rule [simp]: "parent (snd (preparation_rule scr s)) = parent s"
proof -
  obtain a s1 where a: "appear scr ''MAP_PREPARATION'' (Offset 30 30) 3000 85 s = (a, s1)"
    by (cases "appear scr ''MAP_PREPARATION'' (Offset 30 30) 3000 85 s")
  obtain b s2 where b: "appear scr ''FLEET_PREPARATION'' (Offset 20 50) 3000 85 s1 = (b, s2)"
    by (cases "appear scr ''FLEET_PREPARATION'' (Offset 20 50) 3000 85 s1")
  obtain c s3 where c: "appear scr ''RAID_FLEET_PREPARATION'' (Offset 30 30) 3000 85 s2 = (c, s3)"
    by (cases "appear scr ''RAID_FLEET_PREPARATION'' (Offset 30 30) 3000 85 s2")
  from a b c parent_appear [of scr "''MAP_PREPARATION''" "Offset 30 30" 3000 85 s]
    parent_appear [of scr "''FLEET_PREPARATION''" "Offset 20 50" 3000 85 s1]
    parent_appear [of scr "''RAID_FLEET_PREPARATION''" "Offset 30 30" 3000 85 s2]
  show ?thesis
    by (cases a; cases b; cases c) (simp_all add: preparation_rule_def)
qed

lemma parent_withdraw_rule [simp]: "parent (snd (withdraw_rule scr s)) = parent s"
proof -
  obtain a s1 where a: "appear scr ''WITHDRAW'' (Offset 30 30) 3000 85 s = (a, s1)"
    by (cases "appear scr ''WITHDRAW'' (Offset 30 30) 3000 85 s")
  define s2 where "s2 = device_screenshot (device_sleep 2000
       (logger INFO ''WITHDRAW button found, wait until map loaded to prevent bugs in game client'' s1))"
  obtain c s3 where c: "appear_then_click scr ''WITHDRAW'' (Offset 30 30) 0 85 s2 = (c, s3)"
    by (cases "appear_then_click scr ''WITHDRAW'' (Offset 30 30) 0 85 s2")
  from parent_appear_then_click [of scr "''WITHDRAW''" "Offset 30 30" 0 85 s2] c
  have "parent s3 = parent s2" by simp
  moreover have "parent s2 = parent s1" by (simp add: s2_def)
  ultimately have "parent s3 = parent s1" by simp
  with a c parent_appear [of scr "''WITHDRAW''" "Offset 30 30" 3000 85 s] show ?thesis
    by (cases a; cases c) (simp_all add: withdraw_rule_def s2_def [symmetric])
qed

lemma parent_idle_rule [simp]: "parent (snd (idle_rule scr b s)) = parent s"
  by (simp add: idle_rule_def)

lemma parent_handle_idle_page [simp]: "parent (snd (handle_idle_page scr s)) = parent s"
proof -
  have "parent (snd (chain [idle_rule scr ''IDLE'', idle_rule scr ''IDLE_2'', idle_rule scr ''IDLE_3''] s)) = parent s"
    by (rule parent_chain) auto
  then show ?thesis by (simp add: handle_idle_page_def)
qed

lemma parent_ui_additional [simp]: "parent (snd (ui_additional scr get_ship s)) = parent s"
  unfolding ui_additional_def
  by (rule parent_chain) (auto simp: ui_additional_rules_def parent_appear_rule)


lemma parent_ui_button_interval_reset [simp]:
  "parent (ui_button_interval_reset scr g b s) = parent s"
proof -
  have f: "parent (fold (\<lambda>switch_button s. if c = switch_button then interval_reset scr ''GET_SHIP'' s else s) xs t) = parent t" for c xs t
    by (induction xs arbitrary: t) simp_all
  show ?thesis
    by (simp add: ui_button_interval_reset_def Let_def f)
qed

lemma actions_set_interval_timer [simp]: "actions (trace (set_interval_timer b tm s)) = actions (trace s)"
  by simp

lemma trace_ui_button_interval_reset [simp]:
  "trace (ui_button_interval_reset scr g b s) = trace s"
proof -
  have f: "trace (fold (\<lambda>switch_button s. if c = switch_button then interval_reset scr ''GET_SHIP'' s else s) xs t) = trace t" for c xs t
    by (induction xs arbitrary: t) simp_all
  show ?thesis
    by (simp add: ui_button_interval_reset_def Let_def f)
qed

lemma goto_scan_sound:
  "goto_scan scr g off pgs s = (r, s') \<Longrightarrow>
     parent s' = parent s \<and>
     (if r = Return True
      then \<exists>pg q cb b. pg \<in> set pgs \<and> parent s (pname pg) = Some q \<and> check_button pg = Some cb
             \<and> matching (image scr s) cb off 85 \<and> map_of (links pg) q = Some b
             \<and> trace s' = trace s @ [(cur s, Log INFO (''Page switch: '' @ pname pg @ '' -> '' @ q)),
                                     (cur s, Click b)]
      else actions (trace s') = actions (trace s))"
proof (induction pgs arbitrary: s)
  case Nil
  then show ?case by auto
next
  case (Cons pg pgs)
  show ?case
  proof (cases "parent s (pname pg)")
    case None
    with Cons.prems have "goto_scan scr g off pgs s = (r, s')" by simp
    from Cons.IH [OF this] show ?thesis by (auto split: if_splits)
  next
    case (Some q)
    show ?thesis
    proof (cases "check_button pg")
      case None
      with Some Cons.prems have "goto_scan scr g off pgs s = (r, s')" by simp
      from Cons.IH [OF this] show ?thesis by (auto split: if_splits)
    next
      case cb: (Some cb)
      show ?thesis
      proof (rule appear_cases [of scr cb off 5000 85 s])
        fix s1 assume a: "appear scr cb off 5000 85 s = (True, s1)" "trace s1 = trace s" "cur s1 = cur s"
          "matching (image scr s) cb off 85"
        from parent_appear [of scr cb off 5000 85 s] a have p1: "parent s1 = parent s" by simp
        show ?thesis
        proof (cases "map_of (links pg) q")
          case None
          with Some cb a Cons.prems p1 show ?thesis by (auto simp: Let_def)
        next
          case b: (Some b)
          with Some cb a Cons.prems p1 have r: "r = Return True"
            and s': "s' = ui_button_interval_reset scr g b
                 (device_click b (logger INFO (''Page switch: '' @ pname pg @ '' -> '' @ q) s1))"
            by (auto simp: Let_def)
          have "trace s' = trace s @ [(cur s, Log INFO (''Page switch: '' @ pname pg @ '' -> '' @ q)),
                                     (cur s, Click b)]"
            by (simp add: s' a device_click_def logger_def emit_def)
          moreover have "parent s' = parent s" by (simp add: s' p1)
          ultimately show ?thesis using r Some cb b a by auto
        qed
      next
        assume a: "appear scr cb off 5000 85 s = (False, s)"
        with Some cb Cons.prems have "goto_scan scr g off pgs s = (r, s')" by simp
        from Cons.IH [OF this] show ?thesis by (auto split: if_splits)
      qed
    qed
  qed
qed

lemma parent_ui_page_appear [simp]:
  "parent (snd (ui_page_appear scr g pg off 0 s)) = parent s"
  using ui_page_appear_zero [of scr g pg off s "fst (ui_page_appear scr g pg off 0 s)" "snd (ui_page_appear scr g pg off 0 s)"]
  by simp

lemma ui_goto_loop_parent:
  "parent (snd (ui_goto_loop n scr g dest get_ship off skip s)) = parent s"
proof (induction n arbitrary: skip s)
  case 0
  show ?case by simp
next
  case (Suc n)
  define s0 where "s0 = (if skip then s else device_screenshot s)"
  have p0: "parent s0 = parent s" by (simp add: s0_def)
  obtain a s1 where a: "ui_page_appear scr g dest off 0 s0 = (a, s1)"
    by (cases "ui_page_appear scr g dest off 0 s0")
  with parent_ui_page_appear [of scr g dest off s0] p0 have p1: "parent s1 = parent s" by simp
  obtain b s2 where b: "goto_scan scr g off (iter_pages g) s1 = (b, s2)"
    by (cases "goto_scan scr g off (iter_pages g) s1")
  from goto_scan_sound [OF b] p1 have p2: "parent s2 = parent s" by simp
  obtain c s3 where c: "ui_additional scr get_ship s2 = (c, s3)"
    by (cases "ui_additional scr get_ship s2")
  with parent_ui_additional [of scr get_ship s2] p2 have p3: "parent s3 = parent s" by simp
  show ?case
    using a b c p1 p2 p3 Suc.IH [of False s2] Suc.IH [of False s3]
    by (auto simp: s0_def [symmetric] split: outcome.splits bool.splits)
qed


lemma ui_goto_loop_numeral:
  "ui_goto_loop (numeral k) scr g destination get_ship off skip s =
     (case ui_page_appear scr g destination off 0 (if skip then s else device_screenshot s) of
        (Return True, s1) \<Rightarrow> (Return (), logger INFO (''Page arrive: '' @ pname destination) s1)
      | (Return False, s1) \<Rightarrow>
          (case goto_scan scr g off (iter_pages g) s1 of
             (Return True, s2) \<Rightarrow> ui_goto_loop (pred_numeral k) scr g destination get_ship off False s2
           | (Return False, s2) \<Rightarrow>
               (case ui_additional scr get_ship s2 of
                  (Return h, s3) \<Rightarrow> ui_goto_loop (pred_numeral k) scr g destination get_ship off False s3
                | (Raise e, s3) \<Rightarrow> (Raise e, s3)
                | (Unfinished, s3) \<Rightarrow> (Unfinished, s3))
           | (Raise e, s2) \<Rightarrow> (Raise e, s2)
           | (Unfinished, s2) \<Rightarrow> (Unfinished, s2))
      | (Raise e, s1) \<Rightarrow> (Raise e, s1)
      | (Unfinished, s1) \<Rightarrow> (Unfinished, s1))"
  by (simp add: numeral_eq_Suc)

lemmas goto_defs = clear_connection_def init_connection_def iter_check_buttons_def
  ui_button_interval_reset_def ui_goto_def

lemma demo_connection:
  "parent (init_connection demo_graph demo_main s)
     = [''page_event'' \<mapsto> ''page_main'', ''page_main_white'' \<mapsto> ''page_event'',
        ''page_coalition'' \<mapsto> ''page_event'']"
  by (simp add: init_connection_def clear_connection_def scenario_defs)

text \<open>The destination test and the page scan always end.\<close>

lemma ui_page_appear_finished:
  "fst (ui_page_appear scr g pg off 0 s) \<noteq> Unfinished"
  by (auto simp: ui_page_appear_def andthen_def check_appear_def lift_def ret_def
        split: if_splits option.splits prod.splits outcome.splits)

lemma goto_scan_finished:
  "fst (goto_scan scr g off pgs s) \<noteq> Unfinished"
proof (induction pgs arbitrary: s)
  case Nil
  show ?case by simp
next
  case (Cons pg pgs)
  show ?case
  proof (cases "parent s (pname pg)")
    case None
    with Cons show ?thesis by simp
  next
    case (Some q)
    show ?thesis
    proof (cases "check_button pg")
      case None
      with Some Cons show ?thesis by simp
    next
      case cb: (Some cb)
      obtain a s1 where a: "appear scr cb off 5000 85 s = (a, s1)"
        by (cases "appear scr cb off 5000 85 s")
      show ?thesis
      proof (cases a)
        case True
        with Some cb a show ?thesis by (cases "map_of (links pg) q") (simp_all add: Let_def)
      next
        case False
        with Some cb a Cons [of s1] show ?thesis by simp
      qed
    qed
  qed
qed

text \<open>
  C7, as amended. One iteration of the loop of \<open>ui_goto\<close>, started in any state, on the
  frame it looks at (\<open>s1\<close>: the cached frame when the first screenshot is skipped, a new
  one otherwise), does exactly one of the following.
  \<^item> The destination is on the frame: the call returns, with no action.
  \<^item> The page scan clicks: there is a declared page with a parent set and a check button
    that matches the frame under the offset of the call, the button clicked is that page's
    link to its parent, the log line of the switch and that one click are all the
    iteration adds to the trace, and the loop goes on.
  \<^item> The scan finds no page and adds no action, and the interrupt chain \<open>ui_additional\<close>
    handles something: it adds exactly one action, whatever the pages on the frame, and
    the loop goes on.
  \<^item> The scan finds no page, the interrupt chain declines, no action is added, and the
    loop goes on.
  \<^item> The iteration raises, with no action added.

  So a click of the page scan is never speculative, and the only other action of an
  iteration is the one of the interrupt chain, which is not tied to a recognised page.
\<close>

theorem navigation_clicks_of_an_iteration:
  assumes s1: "s1 = (if skip then s else device_screenshot s)"
  shows
  "ui_goto_loop (Suc n) scr g destination get_ship off skip s
      = (Return (), logger INFO (''Page arrive: '' @ pname destination) s1)
   \<or> (\<exists>pg q cb b s2. pg \<in> set (iter_pages g) \<and> parent s1 (pname pg) = Some q
          \<and> check_button pg = Some cb \<and> matching (image scr s1) cb off 85
          \<and> map_of (links pg) q = Some b
          \<and> trace s2 = trace s1 @ [(cur s1, Log INFO (''Page switch: '' @ pname pg @ '' -> '' @ q)),
                                    (cur s1, Click b)]
          \<and> ui_goto_loop (Suc n) scr g destination get_ship off skip s
              = ui_goto_loop n scr g destination get_ship off False s2)
   \<or> (\<exists>s2 s3 a. goto_scan scr g off (iter_pages g) s1 = (Return False, s2)
          \<and> actions (trace s2) = actions (trace s1)
          \<and> ui_additional scr get_ship s2 = (Return True, s3)
          \<and> actions (trace s3) = actions (trace s1) @ [a]
          \<and> ui_goto_loop (Suc n) scr g destination get_ship off skip s
              = ui_goto_loop n scr g destination get_ship off False s3)
   \<or> (\<exists>s2 s3. goto_scan scr g off (iter_pages g) s1 = (Return False, s2)
          \<and> ui_additional scr get_ship s2 = (Return False, s3)
          \<and> actions (trace s3) = actions (trace s1)
          \<and> ui_goto_loop (Suc n) scr g destination get_ship off skip s
              = ui_goto_loop n scr g destination get_ship off False s3)
   \<or> (\<exists>e s'. ui_goto_loop (Suc n) scr g destination get_ship off skip s = (Raise e, s')
          \<and> actions (trace s') = actions (trace s1))"
  (is "?D1 \<or> ?D2 \<or> ?D3 \<or> ?D4 \<or> ?D5")
proof -
  let ?L = "ui_goto_loop (Suc n) scr g destination get_ship off skip s"
  obtain r1 t1 where r1: "ui_page_appear scr g destination off 0 s1 = (r1, t1)"
    by (cases "ui_page_appear scr g destination off 0 s1")
  from ui_page_appear_zero [OF r1] have t1: "t1 = s1" .
  from ui_page_appear_finished [of scr g destination off s1] r1 have nu1: "r1 \<noteq> Unfinished" by simp
  have e1: "ui_page_appear scr g destination off 0 (if skip then s else device_screenshot s) = (r1, s1)"
    using r1 unfolding t1 by (simp only: s1 [symmetric])
  obtain r2 s2 where r2: "goto_scan scr g off (iter_pages g) s1 = (r2, s2)"
    by (cases "goto_scan scr g off (iter_pages g) s1")
  note sc = goto_scan_sound [OF r2]
  from goto_scan_finished [of scr g off "iter_pages g" s1] r2 have nu2: "r2 \<noteq> Unfinished" by simp
  obtain r3 s3 where r3: "ui_additional scr get_ship s2 = (r3, s3)"
    by (cases "ui_additional scr get_ship s2")
  have "one_action (ui_additional scr get_ship)" by (rule one_action_ui_additional)
  then have "case ui_additional scr get_ship s2 of
            (Return True, s') \<Rightarrow> (\<exists>a. actions (trace s') = actions (trace s2) @ [a])
          | (Return False, s') \<Rightarrow> actions (trace s') = actions (trace s2)
          | (Raise e, s') \<Rightarrow> e = RequestHumanTakeover \<and> actions (trace s') = actions (trace s2)
          | (Unfinished, s') \<Rightarrow> False"
    unfolding one_action_def by (rule spec)
  then have oa: "case r3 of
            Return True \<Rightarrow> (\<exists>a. actions (trace s3) = actions (trace s2) @ [a])
          | Return False \<Rightarrow> actions (trace s3) = actions (trace s2)
          | Raise e \<Rightarrow> e = RequestHumanTakeover \<and> actions (trace s3) = actions (trace s2)
          | Unfinished \<Rightarrow> False"
    by (simp only: r3 prod.case)
  show ?thesis
  proof (cases r1)
    case (Return b1)
    show ?thesis
    proof (cases b1)
      case True
      have ?D1
        by (simp only: ui_goto_loop.simps e1 Return True prod.case outcome.case bool.case if_True)
      then show ?thesis by (rule disjI1)
    next
      case False
      note b1 = Return False
      show ?thesis
      proof (cases r2)
        case (Return b2)
        show ?thesis
        proof (cases b2)
          case True
          with Return sc obtain pg q cb b where j:
            "pg \<in> set (iter_pages g)" "parent s1 (pname pg) = Some q" "check_button pg = Some cb"
            "matching (image scr s1) cb off 85" "map_of (links pg) q = Some b"
            "trace s2 = trace s1 @ [(cur s1, Log INFO (''Page switch: '' @ pname pg @ '' -> '' @ q)),
                                    (cur s1, Click b)]"
            by auto
          have lp: "?L = ui_goto_loop n scr g destination get_ship off False s2"
            by (simp only: ui_goto_loop.simps e1 b1 r2 Return True prod.case outcome.case bool.case)
          have ?D2
          proof (intro exI conjI)
            show "pg \<in> set (iter_pages g)" by (rule j)
            show "parent s1 (pname pg) = Some q" by (rule j)
            show "check_button pg = Some cb" by (rule j)
            show "matching (image scr s1) cb off 85" by (rule j)
            show "map_of (links pg) q = Some b" by (rule j)
            show "trace s2 = trace s1 @ [(cur s1, Log INFO (''Page switch: '' @ pname pg @ '' -> '' @ q)),
                                    (cur s1, Click b)]" by (rule j)
            show "?L = ui_goto_loop n scr g destination get_ship off False s2" by (rule lp)
          qed
          then show ?thesis by - (rule disjI2, rule disjI1)
        next
          case False
          note b2 = Return False
          with sc have a2: "actions (trace s2) = actions (trace s1)" by simp
          have g2: "goto_scan scr g off (iter_pages g) s1 = (Return False, s2)"
            using r2 by (simp only: b2)
          show ?thesis
          proof (cases r3)
            case (Return b3)
            have lp: "?L = ui_goto_loop n scr g destination get_ship off False s3"
              by (simp only: ui_goto_loop.simps e1 b1 g2 r3 Return prod.case outcome.case bool.case)
            show ?thesis
            proof (cases b3)
              case True
              with Return oa a2 obtain a where a: "actions (trace s3) = actions (trace s1) @ [a]"
                by auto
              have u3: "ui_additional scr get_ship s2 = (Return True, s3)"
                using r3 by (simp only: Return True)
              have ?D3
              proof (intro exI conjI)
                show "goto_scan scr g off (iter_pages g) s1 = (Return False, s2)" by (rule g2)
                show "actions (trace s2) = actions (trace s1)" by (rule a2)
                show "ui_additional scr get_ship s2 = (Return True, s3)" by (rule u3)
                show "actions (trace s3) = actions (trace s1) @ [a]" by (rule a)
                show "?L = ui_goto_loop n scr g destination get_ship off False s3" by (rule lp)
              qed
              then show ?thesis by - (rule disjI2, rule disjI2, rule disjI1)
            next
              case False
              with Return oa a2 have a: "actions (trace s3) = actions (trace s1)" by simp
              have u3: "ui_additional scr get_ship s2 = (Return False, s3)"
                using r3 by (simp only: Return False)
              have ?D4
              proof (intro exI conjI)
                show "goto_scan scr g off (iter_pages g) s1 = (Return False, s2)" by (rule g2)
                show "ui_additional scr get_ship s2 = (Return False, s3)" by (rule u3)
                show "actions (trace s3) = actions (trace s1)" by (rule a)
                show "?L = ui_goto_loop n scr g destination get_ship off False s3" by (rule lp)
              qed
              then show ?thesis by - (rule disjI2, rule disjI2, rule disjI2, rule disjI1)
            qed
          next
            case (Raise e)
            with oa a2 have a: "actions (trace s3) = actions (trace s1)" by simp
            have lp: "?L = (Raise e, s3)"
              by (simp only: ui_goto_loop.simps e1 b1 g2 r3 Raise prod.case outcome.case bool.case)
            have ?D5
            proof (intro exI conjI)
              show "?L = (Raise e, s3)" by (rule lp)
              show "actions (trace s3) = actions (trace s1)" by (rule a)
            qed
            then show ?thesis by - (rule disjI2, rule disjI2, rule disjI2, rule disjI2)
          next
            case Unfinished
            with oa show ?thesis by simp
          qed
        qed
      next
        case (Raise e)
        with sc have a: "actions (trace s2) = actions (trace s1)" by simp
        have lp: "?L = (Raise e, s2)"
          by (simp only: ui_goto_loop.simps e1 b1 r2 Raise prod.case outcome.case bool.case)
        have ?D5
        proof (intro exI conjI)
          show "?L = (Raise e, s2)" by (rule lp)
          show "actions (trace s2) = actions (trace s1)" by (rule a)
        qed
        then show ?thesis by - (rule disjI2, rule disjI2, rule disjI2, rule disjI2)
      next
        case Unfinished
        with nu2 show ?thesis by simp
      qed
    qed
  next
    case (Raise e)
    have lp: "?L = (Raise e, s1)"
      by (simp only: ui_goto_loop.simps e1 Raise prod.case outcome.case bool.case)
    have ?D5
    proof (intro exI conjI)
      show "?L = (Raise e, s1)" by (rule lp)
      show "actions (trace s1) = actions (trace s1)" by (rule refl)
    qed
    then show ?thesis by - (rule disjI2, rule disjI2, rule disjI2, rule disjI2)
  next
    case Unfinished
    with nu1 show ?thesis by simp
  qed
qed

text \<open>
  The amended statement at one iteration on the way to the main page, the event page on
  the cached frame.
\<close>


theorem navigation_clicks_of_an_iteration_witness:
  "ui_goto_loop (Suc 0) (steady_screen [''EVENT_CHECK''] 1000) demo_graph demo_main True
        (Offset 30 30) True (init_connection demo_graph demo_main start_state)
      = (Return (), logger INFO (''Page arrive: '' @ pname demo_main)
           (init_connection demo_graph demo_main start_state))
   \<or> (\<exists>pg q cb b s2. pg \<in> set (iter_pages demo_graph)
          \<and> parent (init_connection demo_graph demo_main start_state) (pname pg) = Some q
          \<and> check_button pg = Some cb
          \<and> matching (image (steady_screen [''EVENT_CHECK''] 1000)
                (init_connection demo_graph demo_main start_state)) cb (Offset 30 30) 85
          \<and> map_of (links pg) q = Some b
          \<and> trace s2 = trace (init_connection demo_graph demo_main start_state)
               @ [(cur (init_connection demo_graph demo_main start_state),
                   Log INFO (''Page switch: '' @ pname pg @ '' -> '' @ q)),
                  (cur (init_connection demo_graph demo_main start_state), Click b)]
          \<and> ui_goto_loop (Suc 0) (steady_screen [''EVENT_CHECK''] 1000) demo_graph demo_main True
                (Offset 30 30) True (init_connection demo_graph demo_main start_state)
              = ui_goto_loop 0 (steady_screen [''EVENT_CHECK''] 1000) demo_graph demo_main True
                  (Offset 30 30) False s2)
   \<or> (\<exists>s2 s3 a. goto_scan (steady_screen [''EVENT_CHECK''] 1000) demo_graph (Offset 30 30)
            (iter_pages demo_graph) (init_connection demo_graph demo_main start_state)
              = (Return False, s2)
          \<and> actions (trace s2) = actions (trace (init_connection demo_graph demo_main start_state))
          \<and> ui_additional (steady_screen [''EVENT_CHECK''] 1000) True s2 = (Return True, s3)
          \<and> actions (trace s3)
              = actions (trace (init_connection demo_graph demo_main start_state)) @ [a]
          \<and> ui_goto_loop (Suc 0) (steady_screen [''EVENT_CHECK''] 1000) demo_graph demo_main True
                (Offset 30 30) True (init_connection demo_graph demo_main start_state)
              = ui_goto_loop 0 (steady_screen [''EVENT_CHECK''] 1000) demo_graph demo_main True
                  (Offset 30 30) False s3)
   \<or> (\<exists>s2 s3. goto_scan (steady_screen [''EVENT_CHECK''] 1000) demo_graph (Offset 30 30)
            (iter_pages demo_graph) (init_connection demo_graph demo_main start_state)
              = (Return False, s2)
          \<and> ui_additional (steady_screen [''EVENT_CHECK''] 1000) True s2 = (Return False, s3)
          \<and> actions (trace s3) = actions (trace (init_connection demo_graph demo_main start_state))
          \<and> ui_goto_loop (Suc 0) (steady_screen [''EVENT_CHECK''] 1000) demo_graph demo_main True
                (Offset 30 30) True (init_connection demo_graph demo_main start_state)
              = ui_goto_loop 0 (steady_screen [''EVENT_CHECK''] 1000) demo_graph demo_main True
                  (Offset 30 30) False s3)
   \<or> (\<exists>e s'. ui_goto_loop (Suc 0) (steady_screen [''EVENT_CHECK''] 1000) demo_graph demo_main True
                (Offset 30 30) True (init_connection demo_graph demo_main start_state)
              = (Raise e, s')
          \<and> actions (trace s') = actions (trace (init_connection demo_graph demo_main start_state)))"
proof -
  have "init_connection demo_graph demo_main start_state
      = (if True then init_connection demo_graph demo_main start_state
         else device_screenshot (init_connection demo_graph demo_main start_state))"
    by simp
  then show ?thesis by (rule navigation_clicks_of_an_iteration)
qed

text \<open>
  C7 as the specification states it fails for the iteration as a whole. On the way to the
  main page, the frame shows \<open>GAME_TIPS\<close> and no check button of any page: the first
  iteration clicks \<open>GOTO_MAIN\<close>, which is the link of the event page to its parent, on a
  frame where \<open>EVENT_CHECK\<close> does not match. The click is the one of the interrupt chain.
\<close>


theorem interrupt_clicks_unrecognised_page_link:
  "actions (trace (snd (ui_goto 1 (steady_screen [''GAME_TIPS''] 1000) demo_graph demo_main True
      (Offset 30 30) True start_state))) = [Click ''GOTO_MAIN'']
   \<and> cur (snd (ui_goto 1 (steady_screen [''GAME_TIPS''] 1000) demo_graph demo_main True
      (Offset 30 30) True start_state)) = 0
   \<and> parent (snd (ui_goto 1 (steady_screen [''GAME_TIPS''] 1000) demo_graph demo_main True
      (Offset 30 30) True start_state)) ''page_event'' = Some ''page_main''
   \<and> map_of (links demo_event) ''page_main'' = Some ''GOTO_MAIN''
   \<and> check_button demo_event = Some ''EVENT_CHECK''
   \<and> \<not> matching (steady_screen [''GAME_TIPS''] 1000 0) ''EVENT_CHECK'' (Offset 30 30) 85"
  by (simp add: goto_defs chain_defs base_defs scenario_defs actions_def)

text \<open>
  C2, as amended. After a call of \<open>ui_goto\<close> that returns, every page's parent is null:
  \<open>Page.clear_connection()\<close> runs once, after the loop. A call that raises (or is still
  in its loop) has not run it, and the parents are those \<open>Page.init_connection\<close> set.
\<close>

theorem connection_cleared_on_return:
  "(fst (ui_goto n scr g destination get_ship off skip s) = Return ()
      \<longrightarrow> parent (snd (ui_goto n scr g destination get_ship off skip s)) = Map.empty)
   \<and> (fst (ui_goto n scr g destination get_ship off skip s) \<noteq> Return ()
      \<longrightarrow> parent (snd (ui_goto n scr g destination get_ship off skip s))
           = parent (init_connection g destination s))"
proof -
  define s0 where "s0 = logger HR (''UI goto '' @ pname destination)
                (fold interval_clear (iter_check_buttons g) (init_connection g destination s))"
  have f: "parent (fold interval_clear xs t) = parent t" for xs t
    by (induction xs arbitrary: t) (simp_all add: interval_clear_def)
  have p0: "parent s0 = parent (init_connection g destination s)"
    by (simp add: s0_def f)
  obtain r s' where r: "ui_goto_loop n scr g destination get_ship off skip s0 = (r, s')"
    by (cases "ui_goto_loop n scr g destination get_ship off skip s0")
  with ui_goto_loop_parent [of n scr g destination get_ship off skip s0] p0
  have "parent s' = parent (init_connection g destination s)" by simp
  moreover have "ui_goto n scr g destination get_ship off skip s =
     (case ui_goto_loop n scr g destination get_ship off skip s0 of
        (Return u, s') \<Rightarrow> (Return (), clear_connection s')
      | (Raise e, s') \<Rightarrow> (Raise e, s')
      | (Unfinished, s') \<Rightarrow> (Unfinished, s'))"
    by (simp only: ui_goto_def s0_def)
  ultimately show ?thesis using r
    by (cases r) (simp_all add: clear_connection_def)
qed

text \<open>
  On the way to the coalition page: with the coalition page on screen the call returns
  and no parent is left; with the event page on screen for ever it is still looping
  after three iterations, with the event page's parent in place.
\<close>


theorem connection_cleared_on_return_witness:
  "fst (ui_goto 3 (steady_screen [''EVENT_CHECK''] 6000) demo_graph demo_coalition True
          (Offset 30 30) True start_state) = Unfinished
   \<and> parent (snd (ui_goto 3 (steady_screen [''EVENT_CHECK''] 6000) demo_graph demo_coalition True
          (Offset 30 30) True start_state)) ''page_event'' = Some ''page_coalition''
   \<and> fst (ui_goto 3 (steady_screen [''COALITION_CHECK''] 6000) demo_graph demo_coalition True
          (Offset 30 30) True start_state) = Return ()
   \<and> parent (snd (ui_goto 3 (steady_screen [''COALITION_CHECK''] 6000) demo_graph demo_coalition True
          (Offset 30 30) True start_state)) = Map.empty"
proof -
  have 1: "fst (ui_goto 3 (steady_screen [''COALITION_CHECK''] 6000) demo_graph demo_coalition True
          (Offset 30 30) True start_state) = Return ()"
    by (simp add: ui_goto_loop_numeral goto_defs base_defs scenario_defs)
  have 2: "fst (ui_goto 3 (steady_screen [''EVENT_CHECK''] 6000) demo_graph demo_coalition True
          (Offset 30 30) True start_state) = Unfinished"
    by (simp add: ui_goto_loop_numeral goto_defs base_defs scenario_defs)
  have 3: "parent (init_connection demo_graph demo_coalition start_state) ''page_event'' = Some ''page_coalition''"
    by (simp add: init_connection_def clear_connection_def scenario_defs)
  from connection_cleared_on_return [of 3 "steady_screen [''COALITION_CHECK''] 6000" demo_graph demo_coalition True
      "Offset 30 30" True start_state]
    connection_cleared_on_return [of 3 "steady_screen [''EVENT_CHECK''] 6000" demo_graph demo_coalition True
      "Offset 30 30" True start_state] 1 2 3
  show ?thesis by simp
qed

text \<open>
  The claim as stated fails on the fatal exit: on the way to the main page the OpSi
  popup stays on screen, it is clicked on five ticks, the sixth raises
  \<open>RequestHumanTakeover\<close>, and the event page still has the main page as parent.
\<close>

theorem connection_left_after_takeover:
  "fst (ui_goto 6 (steady_screen [''RESET_FLEET_PREPARATION''] 3000) demo_graph demo_main True
          (Offset 30 30) True start_state) = Raise RequestHumanTakeover
   \<and> parent (snd (ui_goto 6 (steady_screen [''RESET_FLEET_PREPARATION''] 3000) demo_graph demo_main True
          (Offset 30 30) True start_state)) ''page_event'' = Some ''page_main''"
  by (simp add: ui_goto_loop_numeral goto_defs chain_defs base_defs scenario_defs)


section \<open>Arrival\<close>


lemma cur_logger [simp]: "cur (logger l m s) = cur s"
  by (simp add: logger_def)

lemma cur_clear_connection [simp]: "cur (clear_connection s) = cur s"
  by (simp add: clear_connection_def)

lemma trace_clear_connection [simp]: "trace (clear_connection s) = trace s"
  by (simp add: clear_connection_def)

lemma cur_init_connection [simp]: "cur (init_connection g d s) = cur s"
  by (simp add: init_connection_def clear_connection_def)

lemma trace_init_connection [simp]: "trace (init_connection g d s) = trace s"
  by (simp add: init_connection_def clear_connection_def)

lemma cur_fold_interval_clear [simp]: "cur (fold interval_clear xs s) = cur s"
  by (induction xs arbitrary: s) (simp_all add: interval_clear_def set_interval_timer_def)

lemma trace_fold_interval_clear [simp]: "trace (fold interval_clear xs s) = trace s"
  by (induction xs arbitrary: s) (simp_all add: interval_clear_def)

lemma has_cached_logger [simp]: "has_cached_image (logger l m s) = has_cached_image s"
  by (simp add: logger_def emit_def)

lemma now_logger [simp]: "now scr (logger l m s) = now scr s"
  by (simp add: now_def image_def)

lemma ui_current_logger [simp]: "ui_current (logger l m s) = ui_current s"
  by (simp add: logger_def emit_def)

lemma ui_current_clear_connection [simp]: "ui_current (clear_connection s) = ui_current s"
  by (simp add: clear_connection_def)

lemma ui_current_init_connection [simp]: "ui_current (init_connection g d s) = ui_current s"
  by (simp add: init_connection_def clear_connection_def)

lemma ui_current_fold_interval_clear [simp]: "ui_current (fold interval_clear xs s) = ui_current s"
  by (induction xs arbitrary: s) (simp_all add: interval_clear_def set_interval_timer_def)

lemma ui_page_appear_cur:
  "cur s = cur t \<Longrightarrow>
     fst (ui_page_appear scr g pg off 0 s) = fst (ui_page_appear scr g pg off 0 t)"
  by (simp add: ui_page_appear_def andthen_def check_appear_def lift_def ret_def image_def
        split: option.splits)

lemma ui_page_appear_state:
  "snd (ui_page_appear scr g pg off 0 s) = s"
  using ui_page_appear_zero [of scr g pg off s "fst (ui_page_appear scr g pg off 0 s)" "snd (ui_page_appear scr g pg off 0 s)"]
  by simp

lemma ui_page_appear_no_raise:
  "check_button pg \<noteq> None \<Longrightarrow> check_button (page_main g) \<noteq> None
     \<Longrightarrow> check_button (page_main_white g) \<noteq> None
     \<Longrightarrow> fst (ui_page_appear scr g pg off 0 s) = Return True
         \<or> fst (ui_page_appear scr g pg off 0 s) = Return False"
  by (auto simp: ui_page_appear_def andthen_def check_appear_def lift_def ret_def split: if_splits)

lemma find_page_found:
  assumes "P \<in> set pgs" "check_button P \<noteq> None"
    "fst (ui_page_appear scr g P (Offset 30 30) 0 s) = Return True"
    "check_button (page_main g) \<noteq> None" "check_button (page_main_white g) \<noteq> None"
  shows "\<exists>q. q \<in> set pgs \<and> find_page scr g pgs s
           = (Return (Some q), (logger ATTR (''UI: '' @ pname q) s)\<lparr>ui_current := Some (pname q)\<rparr>)"
  using assms(1)
proof (induction pgs)
  case Nil
  then show ?case by simp
next
  case (Cons pg pgs)
  show ?case
  proof (cases "check_button pg = None")
    case True
    with Cons.prems assms(2) have "P \<in> set pgs" by auto
    from Cons.IH [OF this] True show ?thesis by auto
  next
    case False
    from ui_page_appear_no_raise [OF False assms(4,5), of scr "Offset 30 30" s]
    show ?thesis
    proof
      assume t: "fst (ui_page_appear scr g pg (Offset 30 30) 0 s) = Return True"
      then have "ui_page_appear scr g pg (Offset 30 30) 0 s = (Return True, s)"
        using ui_page_appear_state [of scr g pg "Offset 30 30" s] by (metis prod.collapse)
      with False show ?thesis by auto
    next
      assume f: "fst (ui_page_appear scr g pg (Offset 30 30) 0 s) = Return False"
      then have e: "ui_page_appear scr g pg (Offset 30 30) 0 s = (Return False, s)"
        using ui_page_appear_state [of scr g pg "Offset 30 30" s] by (metis prod.collapse)
      from f assms(3) Cons.prems have "P \<in> set pgs" by auto
      from Cons.IH [OF this] False e show ?thesis by auto
    qed
  qed
qed

lemma ui_goto_arrived:
  assumes "fst (ui_page_appear scr g P off 0 (if skip then s else device_screenshot s)) = Return True"
  shows "fst (ui_goto (Suc n) scr g P get_ship off skip s) = Return ()
     \<and> actions (trace (snd (ui_goto (Suc n) scr g P get_ship off skip s))) = actions (trace s)
     \<and> cur (snd (ui_goto (Suc n) scr g P get_ship off skip s)) = cur (if skip then s else device_screenshot s)
     \<and> ui_current (snd (ui_goto (Suc n) scr g P get_ship off skip s)) = ui_current s"
proof -
  define s0 where "s0 = logger HR (''UI goto '' @ pname P)
                (fold interval_clear (iter_check_buttons g) (init_connection g P s))"
  define s1 where "s1 = (if skip then s0 else device_screenshot s0)"
  have c: "cur s1 = cur (if skip then s else device_screenshot s)"
    by (simp add: s1_def s0_def device_screenshot_def)
  have t: "actions (trace s1) = actions (trace s)"
    by (simp add: s1_def s0_def)
  have uc: "ui_current s1 = ui_current s"
    by (simp add: s1_def s0_def device_screenshot_def)
  from ui_page_appear_cur [OF c, of scr g P off] assms
  have "fst (ui_page_appear scr g P off 0 s1) = Return True" by simp
  with ui_page_appear_state [of scr g P off s1]
  have a: "ui_page_appear scr g P off 0 s1 = (Return True, s1)" by (metis prod.collapse)
  have u: "ui_goto (Suc n) scr g P get_ship off skip s =
     (case ui_goto_loop (Suc n) scr g P get_ship off skip s0 of
        (Return u, s') \<Rightarrow> (Return (), clear_connection s')
      | (Raise e, s') \<Rightarrow> (Raise e, s')
      | (Unfinished, s') \<Rightarrow> (Unfinished, s'))"
    by (simp only: ui_goto_def s0_def)
  have "ui_goto_loop (Suc n) scr g P get_ship off skip s0
          = (Return (), logger INFO (''Page arrive: '' @ pname P) s1)"
    using a by (simp add: s1_def [symmetric])
  with u c t uc show ?thesis by simp
qed


lemma actions_ui_current [simp]: "trace (s\<lparr>ui_current := x\<rparr>) = trace s"
  by simp

lemma ui_get_current_page_found:
  assumes "P \<in> set (iter_pages g)" "check_button P \<noteq> None"
    "check_button (page_main g) \<noteq> None" "check_button (page_main_white g) \<noteq> None"
    "s0 = (if skip then (if \<not> has_cached_image s then device_screenshot s else s) else device_screenshot s)"
    "fst (ui_page_appear scr g P (Offset 30 30) 0 s0) = Return True"
    "now scr s0 < now scr s + 10000"
  shows "\<exists>q s1. ui_get_current_page (Suc n) scr g cfg skip s = (Return q, s1)
           \<and> ui_current s1 = Some (pname q) \<and> cur s1 = cur s0
           \<and> actions (trace s1) = actions (trace s) \<and> parent s1 = parent s
           \<and> fst (ui_page_appear scr g q (Offset 30 30) 0 s0) = Return True"
proof -
  define s' where "s' = logger INFO ''UI get current page'' s"
  define t0 where "t0 = (if skip then (if \<not> has_cached_image s' then device_screenshot s' else s')
                else device_screenshot s')"
  have c: "cur t0 = cur s0" and a: "actions (trace t0) = actions (trace s)"
    and pa: "parent t0 = parent s"
    by (simp_all add: t0_def s'_def assms(5) device_screenshot_def)
  then have n: "now scr t0 = now scr s0" by (simp add: now_def image_def)
  from ui_page_appear_cur [OF c, of scr g P "Offset 30 30"] assms(6)
  have sh: "fst (ui_page_appear scr g P (Offset 30 30) 0 t0) = Return True" by simp
  from find_page_found [OF assms(1,2) sh assms(3,4)] obtain q where
    q: "q \<in> set (iter_pages g)"
    "find_page scr g (iter_pages g) t0
       = (Return (Some q), (logger ATTR (''UI: '' @ pname q) t0)\<lparr>ui_current := Some (pname q)\<rparr>)"
    by blast
  have nt: "\<not> timer_reached (now scr t0) (timeout (page_locals_init (now scr s)))"
    using assms(7) n by (simp add: timer_reached_def page_locals_init_def timer_start_def Timer_def)
  have "ui_get_current_page (Suc n) scr g cfg skip s
      = (Return q, (logger ATTR (''UI: '' @ pname q) t0)\<lparr>ui_current := Some (pname q)\<rparr>)"
    using nt q(2)
    by (simp add: ui_get_current_page_def s'_def [symmetric] t0_def [symmetric] Let_def)
  moreover have "fst (ui_page_appear scr g q (Offset 30 30) 0 s0) = Return True"
  proof -
    have "fst (find_page scr g pgs t0) = Return (Some q) \<Longrightarrow>
            fst (ui_page_appear scr g q (Offset 30 30) 0 t0) = Return True" for pgs
    proof (induction pgs)
      case Nil
      then show ?case by simp
    next
      case (Cons pg pgs)
      then show ?case
        using ui_page_appear_state [of scr g pg "Offset 30 30" t0]
        by (cases "ui_page_appear scr g pg (Offset 30 30) 0 t0")
           (auto split: if_splits outcome.splits bool.splits)
    qed
    from this [of "iter_pages g"] q(2) ui_page_appear_cur [OF c, of scr g q "Offset 30 30"]
    show ?thesis by simp
  qed
  ultimately show ?thesis using c a pa by (simp add: logger_def emit_def actions_def)
qed

text \<open>
  C5. When the frame the first iteration looks at shows the destination, \<open>ui_goto\<close>
  returns on that iteration: no action is added to the trace and no further screenshot
  is taken. When moreover the destination is a declared page with a check button (and
  the two main pages have theirs) and the timeout of \<open>ui_get_current_page\<close> has not
  run out on that frame, \<open>ui_ensure\<close> returns without any action on that frame too; it
  returns \<open>False\<close> exactly when the page it identified is the destination, and then
  \<open>ui_goto\<close> has not been called (the parents are untouched).
\<close>

theorem arrival_is_idempotent:
  "(fst (ui_page_appear scr g P off 0 (if skip then s else device_screenshot s)) = Return True
     \<longrightarrow> fst (ui_goto (Suc n) scr g P get_ship off skip s) = Return ()
       \<and> actions (trace (snd (ui_goto (Suc n) scr g P get_ship off skip s))) = actions (trace s)
       \<and> cur (snd (ui_goto (Suc n) scr g P get_ship off skip s))
           = cur (if skip then s else device_screenshot s))
   \<and> (P \<in> set (iter_pages g) \<and> check_button P \<noteq> None
       \<and> check_button (page_main g) \<noteq> None \<and> check_button (page_main_white g) \<noteq> None
       \<and> s0 = (if skip then (if \<not> has_cached_image s then device_screenshot s else s)
                else device_screenshot s)
       \<and> fst (ui_page_appear scr g P (Offset 30 30) 0 s0) = Return True
       \<and> now scr s0 < now scr s + 10000
     \<longrightarrow> (fst (ui_ensure (Suc n) scr g cfg P skip s) = Return False
          \<or> fst (ui_ensure (Suc n) scr g cfg P skip s) = Return True)
       \<and> actions (trace (snd (ui_ensure (Suc n) scr g cfg P skip s))) = actions (trace s)
       \<and> cur (snd (ui_ensure (Suc n) scr g cfg P skip s)) = cur s0
       \<and> ((fst (ui_ensure (Suc n) scr g cfg P skip s) = Return False)
            = (ui_current (snd (ui_ensure (Suc n) scr g cfg P skip s)) = Some (pname P)))
       \<and> (fst (ui_ensure (Suc n) scr g cfg P skip s) = Return False
            \<longrightarrow> parent (snd (ui_ensure (Suc n) scr g cfg P skip s)) = parent s))"
proof -
  have B: "(fst (ui_ensure (Suc n) scr g cfg P skip s) = Return False
          \<or> fst (ui_ensure (Suc n) scr g cfg P skip s) = Return True)
       \<and> actions (trace (snd (ui_ensure (Suc n) scr g cfg P skip s))) = actions (trace s)
       \<and> cur (snd (ui_ensure (Suc n) scr g cfg P skip s)) = cur s0
       \<and> ((fst (ui_ensure (Suc n) scr g cfg P skip s) = Return False)
            = (ui_current (snd (ui_ensure (Suc n) scr g cfg P skip s)) = Some (pname P)))
       \<and> (fst (ui_ensure (Suc n) scr g cfg P skip s) = Return False
            \<longrightarrow> parent (snd (ui_ensure (Suc n) scr g cfg P skip s)) = parent s)"
    if h: "P \<in> set (iter_pages g)" "check_button P \<noteq> None"
       "check_button (page_main g) \<noteq> None" "check_button (page_main_white g) \<noteq> None"
       "s0 = (if skip then (if \<not> has_cached_image s then device_screenshot s else s)
                else device_screenshot s)"
       "fst (ui_page_appear scr g P (Offset 30 30) 0 s0) = Return True"
       "now scr s0 < now scr s + 10000"
  proof -
    define sl where "sl = logger HR ''UI ensure'' s"
    have sl: "actions (trace sl) = actions (trace s)" "parent sl = parent s"
      by (simp_all add: sl_def)
    have h5: "s0' = (if skip then (if \<not> has_cached_image sl then device_screenshot sl else sl)
                else device_screenshot sl) \<Longrightarrow> cur s0' = cur s0" for s0'
      by (simp add: sl_def h(5) device_screenshot_def)
    define s0' where "s0' = (if skip then (if \<not> has_cached_image sl then device_screenshot sl else sl)
                else device_screenshot sl)"
    have c0: "cur s0' = cur s0" by (rule h5) (simp add: s0'_def)
    from ui_page_appear_cur [OF c0, of scr g P "Offset 30 30"] h(6)
    have sh: "fst (ui_page_appear scr g P (Offset 30 30) 0 s0') = Return True" by simp
    have nw: "now scr s0' < now scr sl + 10000"
      using h(7) c0 by (simp add: now_def image_def sl_def)
    from ui_get_current_page_found [OF h(1-4) s0'_def sh nw, of n cfg]
    obtain q s1 where q: "ui_get_current_page (Suc n) scr g cfg skip sl = (Return q, s1)"
      "ui_current s1 = Some (pname q)" "cur s1 = cur s0'"
      "actions (trace s1) = actions (trace sl)" "parent s1 = parent sl"
      by blast
    define s2 where "s2 = logger INFO (''Goto '' @ pname P) s1"
    have ue: "ui_ensure (Suc n) scr g cfg P skip s =
        (if ui_current s1 = Some (pname P)
         then (Return False, logger INFO (''Already at '' @ pname P) s1)
         else (case ui_goto (Suc n) scr g P True (Offset 30 30) True s2 of
                  (Return u, s2) \<Rightarrow> (Return True, s2)
                | (Raise e, s2) \<Rightarrow> (Raise e, s2)
                | (Unfinished, s2) \<Rightarrow> (Unfinished, s2)))"
      unfolding ui_ensure_def sl_def [symmetric] q(1) s2_def by simp
    show ?thesis
    proof (cases "pname q = pname P")
      case True
      with q c0 sl show ?thesis
        by (simp add: ue)
    next
      case False
      have c2: "cur (if True then s2 else device_screenshot s2) = cur s0"
        by (simp add: s2_def q c0)
      from ui_page_appear_cur [OF c2, of scr g P "Offset 30 30"] h(6)
      have "fst (ui_page_appear scr g P (Offset 30 30) 0 (if True then s2 else device_screenshot s2)) = Return True"
        by simp
      from ui_goto_arrived [OF this, of n True]
      have g: "fst (ui_goto (Suc n) scr g P True (Offset 30 30) True s2) = Return ()"
        "actions (trace (snd (ui_goto (Suc n) scr g P True (Offset 30 30) True s2))) = actions (trace s2)"
        "cur (snd (ui_goto (Suc n) scr g P True (Offset 30 30) True s2)) = cur s2"
        "ui_current (snd (ui_goto (Suc n) scr g P True (Offset 30 30) True s2)) = ui_current s2"
        by simp_all
      obtain r s3 where r: "ui_goto (Suc n) scr g P True (Offset 30 30) True s2 = (r, s3)"
        by (cases "ui_goto (Suc n) scr g P True (Offset 30 30) True s2")
      with g have "r = Return ()" "actions (trace s3) = actions (trace s2)" "cur s3 = cur s2"
        "ui_current s3 = ui_current s2" by simp_all
      moreover have "actions (trace s2) = actions (trace s1)" "cur s2 = cur s1" "ui_current s2 = ui_current s1"
        by (simp_all add: s2_def)
      ultimately show ?thesis using False q c0 r sl
        by (simp add: ue)
    qed
  qed
  from ui_goto_arrived [of scr g P off skip s n get_ship] B show ?thesis by blast
qed


lemma ui_get_current_page_loop_numeral:
  "ui_get_current_page_loop (numeral k) scr g cfg skip L s =
     (let s0 = (if skip then (if \<not> has_cached_image s then device_screenshot s else s)
                else device_screenshot s)
      in if timer_reached (now scr s0) (timeout L)
         then (Raise GamePageUnknownError, unknown_page_dump g cfg s0)
         else case find_page scr g (iter_pages g) s0 of
                (Return (Some pg), s1) \<Rightarrow> (Return pg, s1)
              | (Return None, s1) \<Rightarrow>
                  (case unknown_page_step scr cfg L s1 of
                     (Return L', s2) \<Rightarrow> ui_get_current_page_loop (pred_numeral k) scr g cfg False L' s2
                   | (Raise e, s2) \<Rightarrow> (Raise e, s2)
                   | (Unfinished, s2) \<Rightarrow> (Unfinished, s2))
              | (Raise e, s1) \<Rightarrow> (Raise e, s1)
              | (Unfinished, s1) \<Rightarrow> (Unfinished, s1))"
  by (simp add: numeral_eq_Suc)

lemmas page_defs = unknown_page_dump_def unknown_page_step_def page_locals_init_def
  ui_get_current_page_def ui_ensure_def str_list_def

text \<open>
  The coalition page is on screen and is asked for: both calls return at once, the
  second with \<open>False\<close>, and nothing is clicked.
\<close>

theorem arrival_is_idempotent_witness:
  "fst (ui_goto (Suc 0) (steady_screen [''COALITION_CHECK''] 1000) demo_graph demo_coalition True
          (Offset 30 30) True start_state) = Return ()
   \<and> actions (trace (snd (ui_goto (Suc 0) (steady_screen [''COALITION_CHECK''] 1000) demo_graph
          demo_coalition True (Offset 30 30) True start_state))) = []
   \<and> fst (ui_ensure (Suc 0) (steady_screen [''COALITION_CHECK''] 1000) demo_graph demo_config
          demo_coalition True start_state) = Return False
   \<and> actions (trace (snd (ui_ensure (Suc 0) (steady_screen [''COALITION_CHECK''] 1000) demo_graph
          demo_config demo_coalition True start_state))) = []"
proof -
  define scr where "scr = steady_screen [''COALITION_CHECK''] 1000"
  have sh: "fst (ui_page_appear scr demo_graph demo_coalition (Offset 30 30) 0 start_state) = Return True"
    by (simp add: scr_def base_defs scenario_defs)
  have h: "demo_coalition \<in> set (iter_pages demo_graph) \<and> check_button demo_coalition \<noteq> None
       \<and> check_button (page_main demo_graph) \<noteq> None \<and> check_button (page_main_white demo_graph) \<noteq> None
       \<and> start_state = (if True then (if \<not> has_cached_image start_state then device_screenshot start_state else start_state)
                else device_screenshot start_state)
       \<and> now scr start_state < now scr start_state + 10000"
    by (simp add: scenario_defs)
  have a0: "actions (trace start_state) = []"
    by (simp add: start_state_def actions_def)
  have e: "fst (ui_ensure (Suc 0) scr demo_graph demo_config demo_coalition True start_state) = Return False"
    by (simp add: scr_def page_defs base_defs scenario_defs)
  from arrival_is_idempotent [of scr demo_graph demo_coalition "Offset 30 30" True start_state 0 True
      start_state demo_config] sh h a0 e
  show ?thesis by (simp add: scr_def)
qed

section \<open>Unrecognised pages\<close>


lemma shows_nothingD:
  assumes "shows_nothing scr"
  shows "\<not> matching (image scr s) b off sim" "\<not> luma_matching (image scr s) b off"
    "\<not> handler_fires (image scr s) h" "app_is_running (image scr s)"
proof -
  from assms have "scr (cur s) = blank_frame (ftime (scr (cur s)))"
    by (simp add: shows_nothing_def)
  then have "image scr s = blank_frame (ftime (scr (cur s)))" by (simp add: image_def)
  then show "\<not> matching (image scr s) b off sim" "\<not> luma_matching (image scr s) b off"
    "\<not> handler_fires (image scr s) h" "app_is_running (image scr s)"
    by (simp_all add: blank_frame_def)
qed

lemma blank_appear:
  "shows_nothing scr \<Longrightarrow> appear scr b off i sim s = (False, s)"
  by (simp add: appear_def shows_nothingD)

lemma blank_appear_then_click:
  "shows_nothing scr \<Longrightarrow> appear_then_click scr b off i sim s = (False, s)"
  by (simp add: appear_then_click_def blank_appear)

lemma blank_handler:
  "shows_nothing scr \<Longrightarrow> handler scr h s = (False, s)"
  by (simp add: handler_def shows_nothingD)

lemma blank_ui_additional:
  assumes "shows_nothing scr" "opsi_reset_fleet_preparation_click s < 5"
  shows "ui_additional scr get_ship s = (Return False, s)"
  using assms
  by (simp add: ui_additional_def ui_additional_rules_def ui_page_os_popups_def
        ui_page_os_popups_rules_def ui_page_main_popups_def ui_page_main_popups_rules_def
        click_rule_def appear_rule_def handler_rule_def goto_main_rule_def player_check_rule_def
        reset_fleet_preparation_rule_def preparation_rule_def withdraw_rule_def idle_rule_def
        handle_idle_page_def lift_def ret_def
        blank_appear blank_appear_then_click blank_handler shows_nothingD)

lemma blank_ui_page_appear:
  "shows_nothing scr \<Longrightarrow> check_button pg \<noteq> None \<Longrightarrow> check_button (page_main g) \<noteq> None
     \<Longrightarrow> check_button (page_main_white g) \<noteq> None
     \<Longrightarrow> ui_page_appear scr g pg off 0 s = (Return False, s)"
  by (auto simp: ui_page_appear_def andthen_def check_appear_def lift_def ret_def shows_nothingD)

lemma blank_find_page:
  "shows_nothing scr \<Longrightarrow> check_button (page_main g) \<noteq> None
     \<Longrightarrow> check_button (page_main_white g) \<noteq> None
     \<Longrightarrow> find_page scr g pgs s = (Return None, s)"
  by (induction pgs) (simp_all add: blank_ui_page_appear)

lemma blank_step:
  assumes "shows_nothing scr" "opsi_reset_fleet_preparation_click s < 5"
  shows "\<exists>L' s'. unknown_page_step scr cfg L s = (Return L', s') \<and> timeout L' = timeout L
           \<and> cur s' = cur s \<and> opsi_reset_fleet_preparation_click s' = opsi_reset_fleet_preparation_click s"
proof -
  define s1 where "s1 = logger INFO ''Unknown ui page'' s"
  have o: "opsi_reset_fleet_preparation_click s1 < 5" using assms(2) by (simp add: s1_def)
  have u: "unknown_page_step scr cfg L s =
     (if \<not> app_checked L \<and> \<not> app_is_running (image scr s1)
           then (Raise GameNotRunningError, s1)
           else let L1 = L\<lparr>app_checked := True\<rparr>;
                    s5 = (if \<not> minicap_checked L1 \<and> Emulator_ControlMethod cfg = ''uiautomator2''
                          then emit UninstallMinicap s1 else s1);
                    L2 = L1\<lparr>minicap_checked := True\<rparr>
                in if timer_reached (now scr s5) (orientation_timer L2)
                   then (Return (L2\<lparr>orientation_timer := timer_reset (now scr s5) (orientation_timer L2)\<rparr>),
                         emit GetOrientation s5)
                   else (Return L2, s5))"
    unfolding unknown_page_step_def s1_def [symmetric] Let_def
    by (simp add: blank_appear_then_click [OF assms(1)] blank_ui_additional [OF assms(1) o])
  show ?thesis
    unfolding u using assms
    by (auto simp: shows_nothingD Let_def s1_def)
qed

lemma blank_loop:
  assumes "shows_nothing scr" "check_button (page_main g) \<noteq> None"
    "check_button (page_main_white g) \<noteq> None"
  shows "opsi_reset_fleet_preparation_click s < 5 \<Longrightarrow> started_at (timeout L) = Some t0
     \<Longrightarrow> limit (timeout L) = 10000
     \<Longrightarrow> fr = cur (if skip then (if \<not> has_cached_image s then device_screenshot s else s)
                else device_screenshot s)
     \<Longrightarrow> fr \<le> k \<Longrightarrow> t0 + 10000 \<le> ftime (scr k) \<Longrightarrow> k - fr < n
     \<Longrightarrow> \<exists>s0. ui_get_current_page_loop n scr g cfg skip L s
              = (Raise GamePageUnknownError, unknown_page_dump g cfg s0)"
proof (induction n arbitrary: skip L s fr)
  case 0
  then show ?case by simp
next
  case (Suc n)
  define s0 where "s0 = (if skip then (if \<not> has_cached_image s then device_screenshot s else s)
                else device_screenshot s)"
  have fr: "fr = cur s0" using Suc.prems(4) by (simp add: s0_def)
  have o0: "opsi_reset_fleet_preparation_click s0 < 5"
    using Suc.prems(1) by (simp add: s0_def device_screenshot_def)
  show ?case
  proof (cases "timer_reached (now scr s0) (timeout L)")
    case True
    then have "ui_get_current_page_loop (Suc n) scr g cfg skip L s
              = (Raise GamePageUnknownError, unknown_page_dump g cfg s0)"
      by (simp add: s0_def [symmetric] Let_def)
    then show ?thesis by blast
  next
    case False
    with Suc.prems(2,3,6) fr have "fr \<noteq> k"
      by (auto simp: timer_reached_def now_def image_def)
    with Suc.prems(5) have lt: "Suc fr \<le> k" by simp
    from blank_step [OF assms(1) o0, of cfg L] obtain L' s' where
      st: "unknown_page_step scr cfg L s0 = (Return L', s')" "timeout L' = timeout L"
        "cur s' = cur s0" "opsi_reset_fleet_preparation_click s' = opsi_reset_fleet_preparation_click s0"
      by blast
    have "\<exists>s0'. ui_get_current_page_loop n scr g cfg False L' s'
              = (Raise GamePageUnknownError, unknown_page_dump g cfg s0')"
    proof (rule Suc.IH [where fr = "Suc fr"])
      show "opsi_reset_fleet_preparation_click s' < 5" using st o0 by simp
      show "started_at (timeout L') = Some t0" using st Suc.prems(2) by simp
      show "limit (timeout L') = 10000" using st Suc.prems(3) by simp
      show "Suc fr = cur (if False then (if \<not> has_cached_image s' then device_screenshot s' else s')
                else device_screenshot s')"
        using st fr by (simp add: device_screenshot_def)
      show "Suc fr \<le> k" by (rule lt)
      show "t0 + 10000 \<le> ftime (scr k)" by (rule Suc.prems(6))
      show "k - Suc fr < n" using Suc.prems(7) lt by simp
    qed
    with False st show ?thesis
      by (simp add: s0_def [symmetric] Let_def blank_find_page [OF assms])
  qed
qed


lemma ui_page_appear_raise:
  "fst (ui_page_appear scr g pg off i s) = Raise e \<Longrightarrow> e = AttributeError ''NoneType''"
  by (auto simp: ui_page_appear_def andthen_def check_appear_def lift_def ret_def
        split: if_splits option.splits prod.splits outcome.splits)

lemma find_page_raise:
  "fst (find_page scr g pgs s) = Raise e \<Longrightarrow> e = AttributeError ''NoneType''"
proof (induction pgs arbitrary: s)
  case Nil
  then show ?case by simp
next
  case (Cons pg pgs)
  show ?case
  proof (cases "check_button pg = None")
    case True
    with Cons show ?thesis by simp
  next
    case False
    obtain r s1 where r: "ui_page_appear scr g pg (Offset 30 30) 0 s = (r, s1)"
      by (cases "ui_page_appear scr g pg (Offset 30 30) 0 s")
    with False Cons.prems Cons.IH [of s1] ui_page_appear_raise [of scr g pg "Offset 30 30" 0 s]
    show ?thesis by (auto split: outcome.splits bool.splits)
  qed
qed

lemma unknown_page_step_raise:
  assumes "fst (unknown_page_step scr cfg L s) = Raise e"
  shows "e = RequestHumanTakeover \<or> e = GameNotRunningError"
proof -
  have a: "ui_additional scr True t = (Raise e', t') \<Longrightarrow> e' = RequestHumanTakeover" for t t' e'
    using one_action_ui_additional [of scr True]
    by (auto simp: one_action_def dest!: spec [where x = t])
  from assms show ?thesis
    by (auto simp: unknown_page_step_def Let_def split: prod.splits bool.splits outcome.splits if_splits
          dest!: a)
qed


lemma unknown_error_dumped:
  "fst (ui_get_current_page_loop n scr g cfg skip L s) = Raise GamePageUnknownError \<Longrightarrow>
     \<exists>s0. snd (ui_get_current_page_loop n scr g cfg skip L s) = unknown_page_dump g cfg s0"
proof (induction n arbitrary: skip L s)
  case 0
  then show ?case by simp
next
  case (Suc n)
  define s0 where "s0 = (if skip then (if \<not> has_cached_image s then device_screenshot s else s)
                else device_screenshot s)"
  show ?case
  proof (cases "timer_reached (now scr s0) (timeout L)")
    case True
    then have "ui_get_current_page_loop (Suc n) scr g cfg skip L s
              = (Raise GamePageUnknownError, unknown_page_dump g cfg s0)"
      by (simp add: s0_def [symmetric] Let_def)
    then show ?thesis by simp blast
  next
    case False
    obtain r s1 where r: "find_page scr g (iter_pages g) s0 = (r, s1)"
      by (cases "find_page scr g (iter_pages g) s0")
    obtain q s2 where q: "unknown_page_step scr cfg L s1 = (q, s2)"
      by (cases "unknown_page_step scr cfg L s1")
    from find_page_raise [of scr g "iter_pages g" s0] r
    have fr: "r \<noteq> Raise GamePageUnknownError" by auto
    from unknown_page_step_raise [of scr cfg L s1] q
    have qr: "q \<noteq> Raise GamePageUnknownError" by auto
    show ?thesis
    proof (cases r)
      case (Return x)
      show ?thesis
      proof (cases x)
        case None
        show ?thesis
        proof (cases q)
          case (Return L')
          with None \<open>r = Return x\<close> r q False Suc.prems
          have "fst (ui_get_current_page_loop n scr g cfg False L' s2) = Raise GamePageUnknownError"
            by (simp add: s0_def [symmetric] Let_def)
          from Suc.IH [OF this] Return None \<open>r = Return x\<close> r q False
          show ?thesis by (simp add: s0_def [symmetric] Let_def)
        next
          case (Raise e)
          with None \<open>r = Return x\<close> r q False Suc.prems qr show ?thesis
            by (simp add: s0_def [symmetric] Let_def)
        next
          case Unfinished
          with None \<open>r = Return x\<close> r q False Suc.prems show ?thesis
            by (simp add: s0_def [symmetric] Let_def)
        qed
      next
        case (Some pg)
        with Return r False Suc.prems show ?thesis
          by (simp add: s0_def [symmetric] Let_def)
      qed
    next
      case (Raise e)
      with r False Suc.prems fr show ?thesis
        by (simp add: s0_def [symmetric] Let_def)
    next
      case Unfinished
      with r False Suc.prems show ?thesis
        by (simp add: s0_def [symmetric] Let_def)
    qed
  qed
qed

lemma dump_trace:
  "map snd (trace (unknown_page_dump g cfg s)) = map snd (trace s) @
     [Log WARNING ''Unknown ui page'',
      Log ATTR (''EMULATOR__SCREENSHOT_METHOD: '' @ Emulator_ScreenshotMethod cfg),
      Log ATTR (''EMULATOR__CONTROL_METHOD: '' @ Emulator_ControlMethod cfg),
      Log ATTR (''SERVER: '' @ SERVER cfg),
      Log WARNING ''Starting from current page is not supported'',
      Log WARNING (''Supported page: '' @ str_list (map (py_repr \<circ> pname) (iter_pages g))),
      Log WARNING (''Supported page: Any page with a '' @ [CHR 0x22] @ ''HOME'' @ [CHR 0x22]
          @ '' button on the upper-right''),
      Log CRITICAL ''Please switch to a supported page before starting Alas'']"
  by (simp add: unknown_page_dump_def logger_def emit_def)

text \<open>
  C6. An iteration of \<open>ui_get_current_page\<close> that finds its timeout reached writes the
  diagnostic dump (screenshot method, control method, server, the list of the known
  pages, what to do) and raises \<open>GamePageUnknownError\<close>; the error is never raised
  without the dump just before it. On a screen that never shows anything, with the game
  running, the call does raise it once a frame is at least 10 s later than the start
  (the timeout is never reset, since nothing is handled). \<open>ui_ensure\<close> does not catch
  what \<open>ui_get_current_page\<close> raises: it ends with the same error in the same state.
\<close>

theorem unknown_page_is_fatal:
  "(s0 = (if skip then (if \<not> has_cached_image s then device_screenshot s else s)
          else device_screenshot s)
     \<and> timer_reached (now scr s0) (timeout L)
     \<longrightarrow> ui_get_current_page_loop (Suc n) scr g cfg skip L s
           = (Raise GamePageUnknownError, unknown_page_dump g cfg s0))
   \<and> map snd (trace (unknown_page_dump g cfg t)) = map snd (trace t) @
       [Log WARNING ''Unknown ui page'',
        Log ATTR (''EMULATOR__SCREENSHOT_METHOD: '' @ Emulator_ScreenshotMethod cfg),
        Log ATTR (''EMULATOR__CONTROL_METHOD: '' @ Emulator_ControlMethod cfg),
        Log ATTR (''SERVER: '' @ SERVER cfg),
        Log WARNING ''Starting from current page is not supported'',
        Log WARNING (''Supported page: '' @ str_list (map (py_repr \<circ> pname) (iter_pages g))),
        Log WARNING (''Supported page: Any page with a '' @ [CHR 0x22] @ ''HOME'' @ [CHR 0x22]
          @ '' button on the upper-right''),
        Log CRITICAL ''Please switch to a supported page before starting Alas'']
   \<and> (fst (ui_get_current_page m scr g cfg skip s) = Raise GamePageUnknownError
     \<longrightarrow> (\<exists>s1. snd (ui_get_current_page m scr g cfg skip s) = unknown_page_dump g cfg s1))
   \<and> (shows_nothing scr \<and> check_button (page_main g) \<noteq> None
       \<and> check_button (page_main_white g) \<noteq> None
       \<and> opsi_reset_fleet_preparation_click s < 5
       \<and> cur (if skip then (if \<not> has_cached_image s then device_screenshot s else s)
               else device_screenshot s) \<le> k
       \<and> now scr s + 10000 \<le> ftime (scr k)
       \<and> k - cur (if skip then (if \<not> has_cached_image s then device_screenshot s else s)
                   else device_screenshot s) < m
     \<longrightarrow> fst (ui_get_current_page m scr g cfg skip s) = Raise GamePageUnknownError)
   \<and> (ui_get_current_page m scr g cfg skip (logger HR ''UI ensure'' s) = (Raise e, s')
     \<longrightarrow> ui_ensure m scr g cfg destination skip s = (Raise e, s'))"
proof -
  have A: "s0 = (if skip then (if \<not> has_cached_image s then device_screenshot s else s)
          else device_screenshot s)
     \<and> timer_reached (now scr s0) (timeout L)
     \<longrightarrow> ui_get_current_page_loop (Suc n) scr g cfg skip L s
           = (Raise GamePageUnknownError, unknown_page_dump g cfg s0)"
    by (auto simp: Let_def)
  have C: "fst (ui_get_current_page m scr g cfg skip s) = Raise GamePageUnknownError
     \<longrightarrow> (\<exists>s1. snd (ui_get_current_page m scr g cfg skip s) = unknown_page_dump g cfg s1)"
    unfolding ui_get_current_page_def by (rule impI) (rule unknown_error_dumped)
  have D: "fst (ui_get_current_page m scr g cfg skip s) = Raise GamePageUnknownError"
    if h: "shows_nothing scr" "check_button (page_main g) \<noteq> None"
       "check_button (page_main_white g) \<noteq> None"
       "opsi_reset_fleet_preparation_click s < 5"
       "cur (if skip then (if \<not> has_cached_image s then device_screenshot s else s)
               else device_screenshot s) \<le> k"
       "now scr s + 10000 \<le> ftime (scr k)"
       "k - cur (if skip then (if \<not> has_cached_image s then device_screenshot s else s)
                   else device_screenshot s) < m"
  proof -
    define sl where "sl = logger INFO ''UI get current page'' s"
    define fr where "fr = cur (if skip then (if \<not> has_cached_image sl then device_screenshot sl else sl)
                else device_screenshot sl)"
    have f: "fr = cur (if skip then (if \<not> has_cached_image s then device_screenshot s else s)
                   else device_screenshot s)"
      by (simp add: fr_def sl_def device_screenshot_def)
    have "\<exists>s0. ui_get_current_page_loop m scr g cfg skip (page_locals_init (now scr s)) sl
              = (Raise GamePageUnknownError, unknown_page_dump g cfg s0)"
    proof (rule blank_loop [OF h(1-3), where k = k and fr = fr and ?t0.0 = "now scr s"])
      show "opsi_reset_fleet_preparation_click sl < 5" using h(4) by (simp add: sl_def)
      show "started_at (timeout (page_locals_init (now scr s))) = Some (now scr s)"
        by (simp add: page_locals_init_def timer_start_def Timer_def)
      show "limit (timeout (page_locals_init (now scr s))) = 10000"
        by (simp add: page_locals_init_def timer_start_def Timer_def)
      show "fr = cur (if skip then (if \<not> has_cached_image sl then device_screenshot sl else sl)
                else device_screenshot sl)" by (simp add: fr_def)
      show "fr \<le> k" using h(5) f by simp
      show "now scr s + 10000 \<le> ftime (scr k)" by (rule h(6))
      show "k - fr < m" using h(7) f by simp
    qed
    then show ?thesis by (auto simp: ui_get_current_page_def sl_def)
  qed
  have E: "ui_get_current_page m scr g cfg skip (logger HR ''UI ensure'' s) = (Raise e, s')
     \<longrightarrow> ui_ensure m scr g cfg destination skip s = (Raise e, s')"
    by (simp add: ui_ensure_def)
  from A C D E dump_trace [of g cfg t] show ?thesis by blast
qed

text \<open>
  A screen that shows nothing, one frame a second: within eleven iterations both calls
  end with the page-unknown error.
\<close>


theorem unknown_page_is_fatal_witness:
  "fst (ui_get_current_page 11 (steady_screen [] 1000) demo_graph demo_config True start_state)
     = Raise GamePageUnknownError
   \<and> fst (ui_ensure 11 (steady_screen [] 1000) demo_graph demo_config demo_main True start_state)
     = Raise GamePageUnknownError"
proof -
  define scr where "scr = steady_screen [] 1000"
  have b: "shows_nothing scr"
    by (simp add: shows_nothing_def scr_def scenario_defs)
  have g: "check_button (page_main demo_graph) \<noteq> None" "check_button (page_main_white demo_graph) \<noteq> None"
    by (simp_all add: scenario_defs)
  have h: "opsi_reset_fleet_preparation_click s < 5
       \<and> cur (if True then (if \<not> has_cached_image s then device_screenshot s else s)
               else device_screenshot s) \<le> 10
       \<and> now scr s + 10000 \<le> ftime (scr 10)
       \<and> 10 - cur (if True then (if \<not> has_cached_image s then device_screenshot s else s)
                   else device_screenshot s) < 11"
    if "s = start_state \<or> s = logger HR ''UI ensure'' start_state" for s
    using that by (auto simp: scr_def scenario_defs now_def image_def logger_def emit_def)
  from unknown_page_is_fatal [of start_state True start_state scr "page_locals_init 0" 0 demo_graph demo_config
      start_state 11 10 GamePageUnknownError start_state demo_main] b g h [of start_state]
  have 1: "fst (ui_get_current_page 11 scr demo_graph demo_config True start_state) = Raise GamePageUnknownError"
    by simp
  define sl where "sl = logger HR ''UI ensure'' start_state"
  from unknown_page_is_fatal [of sl True sl scr "page_locals_init 0" 0 demo_graph demo_config
      sl 11 10 GamePageUnknownError sl demo_main] b g h [of sl]
  have 2: "fst (ui_get_current_page 11 scr demo_graph demo_config True sl) = Raise GamePageUnknownError"
    by (simp add: sl_def)
  then have "ui_get_current_page 11 scr demo_graph demo_config True (logger HR ''UI ensure'' start_state)
      = (Raise GamePageUnknownError, snd (ui_get_current_page 11 scr demo_graph demo_config True sl))"
    by (simp add: sl_def [symmetric]) (metis prod.collapse)
  with unknown_page_is_fatal [of start_state True start_state scr "page_locals_init 0" 0 demo_graph demo_config
      start_state 11 10 GamePageUnknownError
      "snd (ui_get_current_page 11 scr demo_graph demo_config True sl)" demo_main]
  have "ui_ensure 11 scr demo_graph demo_config demo_main True start_state
      = (Raise GamePageUnknownError, snd (ui_get_current_page 11 scr demo_graph demo_config True sl))"
    by blast
  with 1 show ?thesis by (simp add: scr_def)
qed

section \<open>Confirmation window\<close>









lemma cur_click [simp]: "cur (device_click b s) = cur s"
  by (simp add: device_click_def)

lemma image_click [simp]: "image scr (device_click b s) = image scr s"
  by (simp add: image_def)

lemma now_click [simp]: "now scr (device_click b s) = now scr s"
  by (simp add: now_def)








end
